theory Spec2Isabelle
  imports Complex_Main "HOL-Library.Word"
begin

section \<open>JavaScript values\<close>

subsection \<open>Strings\<close>

text \<open>
  A JavaScript string is a sequence of UTF-16 code units. \<open>js\<close> turns an ASCII literal
  into such a sequence.
\<close>

type_synonym jschar = "16 word"
type_synonym jsstring = "jschar list"

definition js :: "string \<Rightarrow> jsstring" where
  "js s = map of_char s"

text \<open>
  \<open>String.prototype.trim\<close> removes the code units of WhiteSpace and LineTerminator
  (ECMA-262) from both ends.
\<close>

definition isWhiteSpace :: "jschar \<Rightarrow> bool" where
  "isWhiteSpace c \<longleftrightarrow>
     c \<in> set [0x09, 0x0A, 0x0B, 0x0C, 0x0D, 0x20, 0xA0, 0x1680,
              0x2028, 0x2029, 0x202F, 0x205F, 0x3000, 0xFEFF]
     \<or> (0x2000 \<le> c \<and> c \<le> 0x200A)"

definition trim :: "jsstring \<Rightarrow> jsstring" where
  "trim s = rev (dropWhile isWhiteSpace (rev (dropWhile isWhiteSpace s)))"

text \<open>\<open>s.split(sep)\<close> for a separator of one code unit: never an empty result.\<close>

fun split :: "jschar \<Rightarrow> jsstring \<Rightarrow> jsstring list" where
  "split sep [] = [[]]"
| "split sep (c # cs) =
     (if c = sep then [] # split sep cs
      else (case split sep cs of [] \<Rightarrow> [[c]] | w # ws \<Rightarrow> (c # w) # ws))"

subsection \<open>Regular expressions\<close>

text \<open>
  The regular expressions of the source use no captures and no look-around, so
  \<open>RegExp.prototype.test\<close> on a pattern anchored by \<open>^\<close> and \<open>$\<close> decides membership of
  the whole string in the pattern's language. \<open>regex_test\<close> decides it by derivatives.
\<close>

datatype regex =
  Fail | Eps | Atom "jschar \<Rightarrow> bool" | Alt regex regex | Seq regex regex | Star regex

definition Maybe :: "regex \<Rightarrow> regex" where
  "Maybe r = Alt Eps r"

definition Many1 :: "regex \<Rightarrow> regex" where
  "Many1 r = Seq r (Star r)"

fun nullable :: "regex \<Rightarrow> bool" where
  "nullable Fail = False"
| "nullable Eps = True"
| "nullable (Atom p) = False"
| "nullable (Alt r s) = (nullable r \<or> nullable s)"
| "nullable (Seq r s) = (nullable r \<and> nullable s)"
| "nullable (Star r) = True"

fun deriv :: "jschar \<Rightarrow> regex \<Rightarrow> regex" where
  "deriv c Fail = Fail"
| "deriv c Eps = Fail"
| "deriv c (Atom p) = (if p c then Eps else Fail)"
| "deriv c (Alt r s) = Alt (deriv c r) (deriv c s)"
| "deriv c (Seq r s) =
     (if nullable r then Alt (Seq (deriv c r) s) (deriv c s) else Seq (deriv c r) s)"
| "deriv c (Star r) = Seq (deriv c r) (Star r)"

fun regex_test :: "regex \<Rightarrow> jsstring \<Rightarrow> bool" where
  "regex_test r [] = nullable r"
| "regex_test r (c # cs) = regex_test (deriv c r) cs"

text \<open>The language of a regular expression, the reference for \<open>regex_test\<close>.\<close>

definition lang_seq :: "jsstring set \<Rightarrow> jsstring set \<Rightarrow> jsstring set" where
  "lang_seq A B = {u @ v | u v. u \<in> A \<and> v \<in> B}"

inductive_set lang_iter :: "jsstring set \<Rightarrow> jsstring set" for A :: "jsstring set" where
  iter_empty: "[] \<in> lang_iter A"
| iter_more: "u \<in> A \<Longrightarrow> v \<in> lang_iter A \<Longrightarrow> u @ v \<in> lang_iter A"

fun lang :: "regex \<Rightarrow> jsstring set" where
  "lang Fail = {}"
| "lang Eps = {[]}"
| "lang (Atom p) = {[c] | c. p c}"
| "lang (Alt r s) = lang r \<union> lang s"
| "lang (Seq r s) = lang_seq (lang r) (lang s)"
| "lang (Star r) = lang_iter (lang r)"

subsection \<open>Numbers\<close>

text \<open>
  The value held by a field of TypeScript type \<open>number\<close>: a finite number, an infinity,
  \<open>NaN\<close>, or \<open>null\<close> (what \<open>JSON.stringify\<close> writes for a non-finite number). A finite
  number is the rational it denotes; negative zero is identified with zero.
\<close>

datatype jsnum = Fin rat | PosInf | NegInf | NaN | Null

text \<open>
  A product and a quotient are rounded to double precision (IEEE 754 binary64: 53
  significant bits, to nearest, a tie to the even significand): \<open>fl x\<close> is the double
  nearest to \<open>x\<close>, for \<open>x\<close> in the range of normal doubles, which the products and
  quotients of counts are. \<open>binExponent x\<close> is the exponent of the leading bit of a
  positive \<open>x\<close>. Sums and differences are taken exactly: the source adds and subtracts
  integers, which are exact in double precision below \<open>2^53\<close>.
\<close>

function bitLength :: "int \<Rightarrow> int" where
  "bitLength n = (if n \<le> 0 then 0 else 1 + bitLength (n div 2))"
  by auto
termination
  by (relation "measure nat") auto

declare bitLength.simps [simp del]

definition pow2 :: "int \<Rightarrow> rat" where
  "pow2 e = (if 0 \<le> e then 2 ^ nat e else 1 / 2 ^ nat (- e))"

definition binExponent :: "rat \<Rightarrow> int" where
  "binExponent x =
     (let (a, b) = quotient_of x;
          e = bitLength a - bitLength b
      in if pow2 e \<le> x then e else e - 1)"

definition roundEven :: "rat \<Rightarrow> int" where
  "roundEven q =
     (let f = \<lfloor>q\<rfloor>; r = q - of_int f
      in if r < 1 / 2 then f else if 1 / 2 < r then f + 1
         else if even f then f else f + 1)"

definition fl :: "rat \<Rightarrow> rat" where
  "fl x =
     (if x = 0 then 0
      else (let e = binExponent \<bar>x\<bar> - 52;
                n = roundEven (\<bar>x\<bar> / pow2 e)
            in sgn x * of_int n * pow2 e))"

definition count :: "nat \<Rightarrow> jsnum" where
  "count n = Fin (of_nat n)"

fun toNumber :: "jsnum \<Rightarrow> jsnum" where
  "toNumber Null = Fin 0"
| "toNumber x = x"

text \<open>
  The operations below are applied to operands converted by \<open>toNumber\<close>; their last
  clause, for a \<open>null\<close> operand, is never reached.
\<close>

fun add_number :: "jsnum \<Rightarrow> jsnum \<Rightarrow> jsnum" where
  "add_number (Fin a) (Fin b) = Fin (a + b)"
| "add_number NaN y = NaN"
| "add_number x NaN = NaN"
| "add_number PosInf NegInf = NaN"
| "add_number NegInf PosInf = NaN"
| "add_number PosInf y = PosInf"
| "add_number x PosInf = PosInf"
| "add_number NegInf y = NegInf"
| "add_number x NegInf = NegInf"
| "add_number x y = NaN"

fun neg_number :: "jsnum \<Rightarrow> jsnum" where
  "neg_number (Fin a) = Fin (- a)"
| "neg_number PosInf = NegInf"
| "neg_number NegInf = PosInf"
| "neg_number x = NaN"

fun sign_number :: "jsnum \<Rightarrow> int" where
  "sign_number (Fin a) = (if a > 0 then 1 else if a < 0 then - 1 else 0)"
| "sign_number PosInf = 1"
| "sign_number NegInf = - 1"
| "sign_number x = 0"

definition signed_inf :: "int \<Rightarrow> jsnum" where
  "signed_inf s = (if s > 0 then PosInf else if s < 0 then NegInf else NaN)"

fun mul_number :: "jsnum \<Rightarrow> jsnum \<Rightarrow> jsnum" where
  "mul_number (Fin a) (Fin b) = Fin (fl (a * b))"
| "mul_number NaN y = NaN"
| "mul_number x NaN = NaN"
| "mul_number Null y = NaN"
| "mul_number x Null = NaN"
| "mul_number x y = signed_inf (sign_number x * sign_number y)"

fun div_number :: "jsnum \<Rightarrow> jsnum \<Rightarrow> jsnum" where
  "div_number (Fin a) (Fin b) =
     (if b \<noteq> 0 then Fin (fl (a / b)) else signed_inf (sign_number (Fin a)))"
| "div_number NaN y = NaN"
| "div_number x NaN = NaN"
| "div_number Null y = NaN"
| "div_number x Null = NaN"
| "div_number (Fin a) y = Fin 0"
| "div_number x (Fin b) = signed_inf (sign_number x * (if b < 0 then - 1 else 1))"
| "div_number x y = NaN"

fun less_number :: "jsnum \<Rightarrow> jsnum \<Rightarrow> bool" where
  "less_number (Fin a) (Fin b) = (a < b)"
| "less_number NaN y = False"
| "less_number x NaN = False"
| "less_number Null y = False"
| "less_number x Null = False"
| "less_number x PosInf = (x \<noteq> PosInf)"
| "less_number NegInf y = (y \<noteq> NegInf)"
| "less_number x y = False"

definition js_add :: "jsnum \<Rightarrow> jsnum \<Rightarrow> jsnum" where
  "js_add x y = add_number (toNumber x) (toNumber y)"

definition js_sub :: "jsnum \<Rightarrow> jsnum \<Rightarrow> jsnum" where
  "js_sub x y = add_number (toNumber x) (neg_number (toNumber y))"

definition js_mul :: "jsnum \<Rightarrow> jsnum \<Rightarrow> jsnum" where
  "js_mul x y = mul_number (toNumber x) (toNumber y)"

definition js_div :: "jsnum \<Rightarrow> jsnum \<Rightarrow> jsnum" where
  "js_div x y = div_number (toNumber x) (toNumber y)"

definition js_lt :: "jsnum \<Rightarrow> jsnum \<Rightarrow> bool" where
  "js_lt x y = less_number (toNumber x) (toNumber y)"

definition js_gt :: "jsnum \<Rightarrow> jsnum \<Rightarrow> bool" where
  "js_gt x y = less_number (toNumber y) (toNumber x)"

text \<open>\<open>Math.round\<close>: the nearest integer, a tie going up.\<close>

fun Math_round :: "jsnum \<Rightarrow> jsnum" where
  "Math_round (Fin a) = Fin (of_int \<lfloor>a + 1 / 2\<rfloor>)"
| "Math_round x = toNumber x"

text \<open>Truthiness of a number or \<open>null\<close>, and of an optional property.\<close>

fun truthy :: "jsnum \<Rightarrow> bool" where
  "truthy (Fin a) = (a \<noteq> 0)"
| "truthy PosInf = True"
| "truthy NegInf = True"
| "truthy x = False"


section \<open>Data model (src/unnamed/part_000, the types)\<close>

datatype dtype = T_string | T_number | T_boolean | T_mixed | T_unknown

record columnProfile =
  name :: jsstring
  dataType :: dtype
  missingValues :: jsnum
  uniqueValues :: jsnum
  nonNumericCount :: "jsnum option"

record fileProfile =
  rowCount :: jsnum
  columnCount :: jsnum
  columns :: "columnProfile list"

record aIInsights =
  suggested_kpis :: "jsstring list"
  data_quality_summary :: jsstring

record fullProfileResult = fileProfile +
  aiInsights :: "aIInsights option"

datatype cleaningActionType =
  REMOVE_ROWS | FILL_MEAN | FILL_MEDIAN | FILL_MODE | FILL_CUSTOM | CHANGE_TYPE
  | TRIM_WHITESPACE

datatype targetType = To_string | To_number

record parameters =
  fill_value :: "jsstring option"
  targetType :: "targetType option"

record cleaningSuggestion =
  action :: cleaningActionType
  description :: jsstring
  parameters :: "parameters option"

datatype issueType = Missing_values | Mixed_type

record issueDetails =
  missingCount :: "jsnum option"
  nonNumericCountOf :: "jsnum option"
  totalRows :: jsnum

record columnIssue =
  fileName :: jsstring
  columnName :: jsstring
  issueType :: issueType
  details :: issueDetails

record appliedAction =
  action_file :: jsstring
  column :: jsstring
  suggestion :: cleaningSuggestion

section \<open>File parser and profiler (src/unnamed/part_003, the profiling page)\<close>

text \<open>
  \<open>isNumeric\<close>: the pattern is \<^verbatim>\<open>/^-?\d*\.?\d+$/\<close>, tested on the trimmed string.
\<close>

definition isDigit :: "jschar \<Rightarrow> bool" where
  "isDigit c \<longleftrightarrow> 0x30 \<le> c \<and> c \<le> 0x39"

definition numericPattern :: regex where
  "numericPattern =
     Seq (Maybe (Atom (\<lambda>c. c = 0x2D)))
       (Seq (Star (Atom isDigit))
         (Seq (Maybe (Atom (\<lambda>c. c = 0x2E))) (Many1 (Atom isDigit))))"

definition isNumeric :: "jsstring \<Rightarrow> bool" where
  "isNumeric str = (if trim str = [] then False else regex_test numericPattern (trim str))"

text \<open>
  The CSV branch of \<open>parseFile\<close>. \<open>removeQuotes\<close> is \<^verbatim>\<open>.replace(/"/g, '')\<close> and
  \<open>cleanCell\<close> is the function mapped over the cells of a line.
\<close>

definition removeQuotes :: "jsstring \<Rightarrow> jsstring" where
  "removeQuotes s = filter (\<lambda>c. c \<noteq> 0x22) s"

definition cleanCell :: "jsstring \<Rightarrow> jsstring" where
  "cleanCell cell = removeQuotes (trim cell)"

definition parseCsv :: "jsstring \<Rightarrow> jsstring list \<times> jsstring list list" where
  "parseCsv content =
     (let lines = filter (\<lambda>line. trim line \<noteq> []) (split 0x0A content)
      in case lines of
           [] \<Rightarrow> ([], [])
         | first # rest \<Rightarrow>
             (map cleanCell (split 0x2C first),
              map (\<lambda>line. map cleanCell (split 0x2C line)) rest))"

text \<open>
  A cell of a parsed grid is a string, a number, a boolean or \<open>null\<close>; reading a row
  beyond its end, or a hole of a sparse row, gives \<open>undefined\<close>. How a number prints is
  left open: \<open>numstr\<close> stands for \<open>String\<close> on numbers.
\<close>

datatype 'n cell = CString jsstring | CNumber 'n | CBoolean bool | CNull | CUndefined

definition cellAt :: "'n cell list \<Rightarrow> nat \<Rightarrow> 'n cell" where
  "cellAt row i = (if i < length row then row ! i else CUndefined)"

fun toString :: "('n \<Rightarrow> jsstring) \<Rightarrow> 'n cell \<Rightarrow> jsstring" where
  "toString numstr (CString s) = s"
| "toString numstr (CNumber n) = numstr n"
| "toString numstr (CBoolean b) = (if b then js ''true'' else js ''false'')"
| "toString numstr CNull = js ''null''"
| "toString numstr CUndefined = js ''undefined''"

definition stringifyCell :: "('n \<Rightarrow> jsstring) \<Rightarrow> 'n cell \<Rightarrow> jsstring" where
  "stringifyCell numstr c = (if c = CNull \<or> c = CUndefined then [] else toString numstr c)"

definition stringifyRows ::
  "('n \<Rightarrow> jsstring) \<Rightarrow> jsstring list \<Rightarrow> 'n cell list list \<Rightarrow> jsstring list list" where
  "stringifyRows numstr header rawRows =
     map (\<lambda>row. map (\<lambda>colIndex. stringifyCell numstr (cellAt row colIndex))
                  [0..<length header]) rawRows"

definition isMissing :: "jsstring \<Rightarrow> bool" where
  "isMissing val \<longleftrightarrow> trim val = []"

definition inferType :: "jsstring list \<Rightarrow> dtype \<times> nat" where
  "inferType columnValues =
     (let nonNullValues = filter (\<lambda>val. \<not> isMissing val) columnValues
      in if length nonNullValues > 0 then
           (let numericValues = filter isNumeric nonNullValues;
                stringValues = filter (\<lambda>val. \<not> isNumeric val) nonNullValues
            in if length numericValues > 0 \<and> length stringValues > 0
               then (T_mixed, length stringValues)
               else if length numericValues > 0 then (T_number, 0)
               else (T_string, 0))
         else (T_unknown, 0))"

definition profileColumn :: "jsstring \<Rightarrow> jsstring list \<Rightarrow> columnProfile" where
  "profileColumn colName columnValues =
     (let missing = length (filter isMissing columnValues);
          unique = length (remdups (filter (\<lambda>val. \<not> isMissing val) columnValues));
          (dt, nonNumeric) = inferType columnValues
      in \<lparr>name = colName, dataType = dt, missingValues = count missing,
          uniqueValues = count unique,
          nonNumericCount = (if dt = T_mixed then Some (count nonNumeric) else None)\<rparr>)"

datatype error = EmptyFile | TypeError

definition basicProfile ::
  "('n \<Rightarrow> jsstring) \<Rightarrow> jsstring list \<Rightarrow> 'n cell list list \<Rightarrow> error + fileProfile" where
  "basicProfile numstr header rawRows =
     (if length header = 0 \<and> length rawRows = 0 then Inl EmptyFile
      else
        (let rows = stringifyRows numstr header rawRows
         in Inr \<lparr>rowCount = count (length rows),
                 columnCount = count (length header),
                 columns = map (\<lambda>colIndex.
                     profileColumn (header ! colIndex) (map (\<lambda>row. row ! colIndex) rows))
                   [0..<length header]\<rparr>))"


section \<open>Issue detection and staged selections (src/components/pages/DataCleaning.tsx)\<close>

text \<open>
  The issues collected by \<open>fetchSuggestionsForFile\<close> for a profile: the body of the
  \<open>forEach\<close> callback pushes onto \<open>issuesToFetch\<close>.
\<close>

definition truthyOpt :: "jsnum option \<Rightarrow> bool" where
  "truthyOpt v = (case v of None \<Rightarrow> False | Some n \<Rightarrow> truthy n)"

definition pushIssues ::
  "jsstring \<Rightarrow> 'a fileProfile_scheme \<Rightarrow> columnIssue list \<Rightarrow> columnProfile \<Rightarrow> columnIssue list"
  where
  "pushIssues fName profile issues col =
     (let issues1 =
            (if js_gt (missingValues col) (Fin 0)
             then issues @
               [\<lparr>fileName = fName, columnName = name col, issueType = Missing_values,
                 details = \<lparr>missingCount = Some (missingValues col),
                            nonNumericCountOf = None, totalRows = rowCount profile\<rparr>\<rparr>]
             else issues)
      in if dataType col = T_mixed \<and> truthyOpt (nonNumericCount col)
            \<and> js_gt (the (nonNumericCount col)) (Fin 0)
         then issues1 @
           [\<lparr>fileName = fName, columnName = name col, issueType = Mixed_type,
             details = \<lparr>missingCount = None,
                        nonNumericCountOf = nonNumericCount col,
                        totalRows = rowCount profile\<rparr>\<rparr>]
         else issues1)"

definition issuesToFetch :: "jsstring \<Rightarrow> 'a fileProfile_scheme \<Rightarrow> columnIssue list" where
  "issuesToFetch fName profile = foldl (pushIssues fName profile) [] (columns profile)"

text \<open>
  An object used as a dictionary is a list of its properties in insertion order;
  \<open>assign k v\<close> is \<^verbatim>\<open>{...prev, [k]: v}\<close> and \<^verbatim>\<open>obj[k] = v\<close>: an existing property keeps
  its place.
\<close>

fun assign :: "jsstring \<Rightarrow> 'v \<Rightarrow> (jsstring \<times> 'v) list \<Rightarrow> (jsstring \<times> 'v) list" where
  "assign k v [] = [(k, v)]"
| "assign k v (p # ps) = (if fst p = k then (k, v) # ps else p # assign k v ps)"

text \<open>
  Such an object inherits from \<open>Object.prototype\<close>: reading \<^verbatim>\<open>obj[k]\<close> for a \<open>k\<close> that is
  not a property of the object itself, but the name of a member of the prototype, gives
  that member (a function, or the prototype itself for \<open>__proto__\<close>), not \<open>undefined\<close>.
\<close>

definition inheritedKey :: "jsstring \<Rightarrow> bool" where
  "inheritedKey k \<longleftrightarrow>
     k \<in> set (map js
       [''constructor'', ''__proto__'', ''hasOwnProperty'', ''isPrototypeOf'',
        ''propertyIsEnumerable'', ''toLocaleString'', ''toString'', ''valueOf'',
        ''__defineGetter__'', ''__defineSetter__'', ''__lookupGetter__'',
        ''__lookupSetter__''])"

definition actionKey :: "jsstring \<Rightarrow> jsstring \<Rightarrow> jsstring" where
  "actionKey f c = f @ js ''-'' @ c"

definition handleActionSelect ::
  "jsstring \<Rightarrow> jsstring \<Rightarrow> cleaningSuggestion \<Rightarrow> (jsstring \<times> appliedAction) list
     \<Rightarrow> (jsstring \<times> appliedAction) list" where
  "handleActionSelect f c sug prev =
     assign (actionKey f c) \<lparr>action_file = f, column = c, suggestion = sug\<rparr> prev"

text \<open>The states of \<open>selectedActions\<close>: initially empty, changed by \<open>handleActionSelect\<close> only.\<close>

inductive staged :: "(jsstring \<times> appliedAction) list \<Rightarrow> bool" where
  staged_init: "staged []"
| staged_select: "staged prev \<Longrightarrow> staged (handleActionSelect f c sug prev)"

section \<open>Cleaning simulator (src/components/pages/DataCleaning.tsx)\<close>

text \<open>\<^verbatim>\<open>JSON.parse(JSON.stringify(profiles))\<close>: a non-finite number comes back as \<open>null\<close>.\<close>

fun jsonNumber :: "jsnum \<Rightarrow> jsnum" where
  "jsonNumber (Fin a) = Fin a"
| "jsonNumber x = Null"

definition jsonColumn :: "columnProfile \<Rightarrow> columnProfile" where
  "jsonColumn c =
     c\<lparr>missingValues := jsonNumber (missingValues c),
       uniqueValues := jsonNumber (uniqueValues c),
       nonNumericCount := map_option jsonNumber (nonNumericCount c)\<rparr>"

definition jsonProfile :: "'a fileProfile_scheme \<Rightarrow> 'a fileProfile_scheme" where
  "jsonProfile p =
     p\<lparr>rowCount := jsonNumber (rowCount p),
       columnCount := jsonNumber (columnCount p),
       columns := map jsonColumn (columns p)\<rparr>"

definition jsonCopy :: "(jsstring \<rightharpoonup> 'a fileProfile_scheme) \<Rightarrow> (jsstring \<rightharpoonup> 'a fileProfile_scheme)"
  where
  "jsonCopy profs = (\<lambda>f. map_option jsonProfile (profs f))"

text \<open>
  Grouping the selections by file: \<open>actionsByFile\<close>, a plain object. For a selection
  whose file has no group yet, \<^verbatim>\<open>!actionsByFile[action.file]\<close> holds and an array is
  made, unless the file name is the name of a member of \<open>Object.prototype\<close>: that member is
  found, no array is made, and \<^verbatim>\<open>actionsByFile[action.file].push\<close> is \<open>undefined\<close>, whose
  call raises a \<open>TypeError\<close>.
\<close>

definition pushAction ::
  "(jsstring \<times> appliedAction list) list \<Rightarrow> appliedAction
     \<Rightarrow> error + (jsstring \<times> appliedAction list) list" where
  "pushAction groups a =
     (case map_of groups (action_file a) of
        None \<Rightarrow>
          if inheritedKey (action_file a) then Inl TypeError
          else Inr (assign (action_file a) [a] groups)
      | Some as \<Rightarrow> Inr (assign (action_file a) (as @ [a]) groups))"

definition actionsByFile ::
  "(jsstring \<times> appliedAction) list \<Rightarrow> error + (jsstring \<times> appliedAction list) list" where
  "actionsByFile selected =
     foldl (\<lambda>acc a. case acc of Inl e \<Rightarrow> Inl e | Inr groups \<Rightarrow> pushAction groups a)
       (Inr []) (map snd selected)"

text \<open>
  The same grouping when no file name is inherited: \<open>ownGroups selected\<close> is then the
  value of \<open>actionsByFile\<close> (lemma \<open>actionsByFile_eq\<close>).
\<close>

definition pushOwn ::
  "(jsstring \<times> appliedAction list) list \<Rightarrow> appliedAction \<Rightarrow> (jsstring \<times> appliedAction list) list"
  where
  "pushOwn groups a =
     (case map_of groups (action_file a) of
        None \<Rightarrow> assign (action_file a) [a] groups
      | Some as \<Rightarrow> assign (action_file a) (as @ [a]) groups)"

definition ownGroups ::
  "(jsstring \<times> appliedAction) list \<Rightarrow> (jsstring \<times> appliedAction list) list" where
  "ownGroups selected = foldl pushOwn [] (map snd selected)"

text \<open>
  The \<open>switch\<close> on the action of one selection, on the column it names and the running
  \<open>maxRowsToRemove\<close>.
\<close>

definition dtypeOf :: "targetType \<Rightarrow> dtype" where
  "dtypeOf t = (case t of To_string \<Rightarrow> T_string | To_number \<Rightarrow> T_number)"

definition fillMissing :: "columnProfile \<Rightarrow> columnProfile" where
  "fillMissing col = col\<lparr>missingValues := Fin 0, uniqueValues := js_add (uniqueValues col) (Fin 1)\<rparr>"

definition changeType :: "targetType \<Rightarrow> columnProfile \<Rightarrow> columnProfile" where
  "changeType t col =
     (let col1 = col\<lparr>dataType := dtypeOf t\<rparr>
      in if t = To_number \<and> truthyOpt (nonNumericCount col1)
         then col1\<lparr>missingValues := js_add (missingValues col1) (the (nonNumericCount col1)),
                   nonNumericCount := Some (Fin 0)\<rparr>
         else col1)"

definition applyAction :: "appliedAction \<Rightarrow> columnProfile \<times> jsnum \<Rightarrow> columnProfile \<times> jsnum" where
  "applyAction a st =
     (let (col, maxRowsToRemove) = st;
          originalMissingCount = missingValues col
      in case action (suggestion a) of
           REMOVE_ROWS \<Rightarrow>
             (col\<lparr>missingValues := Fin 0\<rparr>,
              if js_gt originalMissingCount maxRowsToRemove then originalMissingCount
              else maxRowsToRemove)
         | FILL_MEAN \<Rightarrow> (fillMissing col, maxRowsToRemove)
         | FILL_MEDIAN \<Rightarrow> (fillMissing col, maxRowsToRemove)
         | FILL_MODE \<Rightarrow> (fillMissing col, maxRowsToRemove)
         | FILL_CUSTOM \<Rightarrow> (fillMissing col, maxRowsToRemove)
         | CHANGE_TYPE \<Rightarrow>
             (case parameters (suggestion a) of
                None \<Rightarrow> (col, maxRowsToRemove)
              | Some ps \<Rightarrow>
                  (case targetType ps of
                     None \<Rightarrow> (col, maxRowsToRemove)
                   | Some t \<Rightarrow> (changeType t col, maxRowsToRemove)))
         | TRIM_WHITESPACE \<Rightarrow> (col, maxRowsToRemove))"

text \<open>
  One selection on the columns of a file: \<open>find\<close> gives the first column of that name,
  which is updated in place; without such a column nothing happens.
\<close>

fun actionOnColumns ::
  "appliedAction \<Rightarrow> columnProfile list \<Rightarrow> jsnum \<Rightarrow> columnProfile list \<times> jsnum" where
  "actionOnColumns a [] mx = ([], mx)"
| "actionOnColumns a (c # cs) mx =
     (if name c = column a
      then (let (c', mx') = applyAction a (c, mx) in (c' # cs, mx'))
      else (let (cs', mx') = actionOnColumns a cs mx in (c # cs', mx')))"

definition removeSelected :: "appliedAction list \<Rightarrow> columnProfile \<Rightarrow> bool" where
  "removeSelected actions col \<longleftrightarrow>
     list_ex (\<lambda>a. column a = name col \<and> action (suggestion a) = REMOVE_ROWS) actions"

definition floorZero :: "jsnum \<Rightarrow> jsnum" where
  "floorZero x = (if js_lt x (Fin 0) then Fin 0 else x)"

definition propagate ::
  "appliedAction list \<Rightarrow> jsnum \<Rightarrow> jsnum \<Rightarrow> columnProfile \<Rightarrow> columnProfile" where
  "propagate actions maxRowsToRemove originalRowCount col =
     (if \<not> removeSelected actions col
      then (let removalRatio = js_div maxRowsToRemove originalRowCount;
                estimatedRemovals = Math_round (js_mul (missingValues col) removalRatio)
            in col\<lparr>missingValues := floorZero (js_sub (missingValues col) estimatedRemovals)\<rparr>)
      else col)"

definition processFile :: "'a fileProfile_scheme \<Rightarrow> appliedAction list \<Rightarrow> 'a fileProfile_scheme"
  where
  "processFile fileProfile actions =
     (let (cols, maxRowsToRemove) =
            foldl (\<lambda>(cs, mx) a. actionOnColumns a cs mx) (columns fileProfile, Fin 0) actions
      in if js_gt maxRowsToRemove (Fin 0)
         then fileProfile
                \<lparr>rowCount := floorZero (js_sub (rowCount fileProfile) maxRowsToRemove),
                 columns := map (propagate actions maxRowsToRemove (rowCount fileProfile)) cols\<rparr>
         else fileProfile\<lparr>columns := cols\<rparr>)"

text \<open>
  The loop over the groups, on the copy: a group whose file has no profile is skipped.
  (The names of the groups are never inherited ones, lemma \<open>actionsByFile_own\<close>, so
  \<^verbatim>\<open>newProfiles[fileName]\<close> is a lookup in the copy itself.)
\<close>

definition processGroups ::
  "(jsstring \<rightharpoonup> 'a fileProfile_scheme) \<Rightarrow> (jsstring \<times> appliedAction list) list
     \<Rightarrow> (jsstring \<rightharpoonup> 'a fileProfile_scheme)" where
  "processGroups np groups =
     foldl (\<lambda>np (fName, actions).
              case np fName of
                None \<Rightarrow> np
              | Some fileProfile \<Rightarrow> np(fName \<mapsto> processFile fileProfile actions))
       np groups"

text \<open>
  \<open>newProfiles profs selected\<close> is the map the handler passes to \<open>setProfiles\<close>, for
  selections that raise nothing in the grouping (lemma \<open>handleApplyChanges_eq\<close>).
\<close>

definition newProfiles ::
  "(jsstring \<rightharpoonup> 'a fileProfile_scheme) \<Rightarrow> (jsstring \<times> appliedAction) list
     \<Rightarrow> (jsstring \<rightharpoonup> 'a fileProfile_scheme)" where
  "newProfiles profs selected = processGroups (jsonCopy profs) (ownGroups selected)"

text \<open>
  The handler works on the state of \<open>App\<close>, the profile map and the active page, and on
  the staged selections, which are local state of the cleaning page. Its result is the
  state of \<open>App\<close> after \<open>setProfiles\<close> and \<open>onProceed\<close>, where the cleaning page is no
  longer rendered and its selections are gone; or the error raised, in which case neither
  has been called and the state of \<open>App\<close> is as before.
\<close>

datatype page =
  KPIs_DAX | Data_Upload | Data_Profiling | Data_Cleaning | Data_Modeling
  | Dashboard_Design | Publish_Share

record appState =
  profiles :: "jsstring \<rightharpoonup> fullProfileResult"
  activePage :: page

definition handleApplyChanges ::
  "appState \<Rightarrow> (jsstring \<times> appliedAction) list \<Rightarrow> error + appState" where
  "handleApplyChanges st selectedActions =
     (let copy = jsonCopy (profiles st)
      in case actionsByFile selectedActions of
           Inl e \<Rightarrow> Inl e
         | Inr groups \<Rightarrow>
             Inr (st\<lparr>profiles := processGroups copy groups, activePage := Data_Modeling\<rparr>))"


text \<open>
  The data model's notion of a missing value, read on a raw cell of the grid: \<open>null\<close> or
  \<open>undefined\<close>, or empty after trimming.
\<close>

definition cellMissing :: "('n \<Rightarrow> jsstring) \<Rightarrow> 'n cell list \<Rightarrow> nat \<Rightarrow> bool" where
  "cellMissing numstr row j \<longleftrightarrow>
     cellAt row j = CNull \<or> cellAt row j = CUndefined
     \<or> trim (toString numstr (cellAt row j)) = []"

text \<open>
  The descriptors of the two kinds of issue, and the conditions of the specification
  under which a column has them.
\<close>

definition missingIssue :: "jsstring \<Rightarrow> 'a fileProfile_scheme \<Rightarrow> columnProfile \<Rightarrow> columnIssue" where
  "missingIssue fName profile col =
     \<lparr>fileName = fName, columnName = name col, issueType = Missing_values,
      details = \<lparr>missingCount = Some (missingValues col), nonNumericCountOf = None,
                 totalRows = rowCount profile\<rparr>\<rparr>"

definition mixedIssue :: "jsstring \<Rightarrow> 'a fileProfile_scheme \<Rightarrow> columnProfile \<Rightarrow> columnIssue" where
  "mixedIssue fName profile col =
     \<lparr>fileName = fName, columnName = name col, issueType = Mixed_type,
      details = \<lparr>missingCount = None, nonNumericCountOf = nonNumericCount col,
                 totalRows = rowCount profile\<rparr>\<rparr>"

definition hasMissing :: "columnProfile \<Rightarrow> bool" where
  "hasMissing col \<longleftrightarrow> js_gt (missingValues col) (Fin 0)"

definition hasMixed :: "columnProfile \<Rightarrow> bool" where
  "hasMixed col \<longleftrightarrow>
     dataType col = T_mixed \<and>
     (case nonNumericCount col of None \<Rightarrow> False | Some n \<Rightarrow> js_gt n (Fin 0))"

text \<open>
  Stripping the double-quotes that surround a cell, in the specification's words: the
  quotes at both ends go, those inside stay.
\<close>

definition stripSurrounding :: "jsstring \<Rightarrow> jsstring" where
  "stripSurrounding s =
     rev (dropWhile (\<lambda>c. c = 0x22) (rev (dropWhile (\<lambda>c. c = 0x22) s)))"

text \<open>
  The selections of a batch made for one file, in the order of \<open>Object.values\<close>.
\<close>

definition actionsFor :: "jsstring \<Rightarrow> (jsstring \<times> appliedAction) list \<Rightarrow> appliedAction list" where
  "actionsFor f selected = filter (\<lambda>a. action_file a = f) (map snd selected)"

text \<open>
  The data model's counts: a count is a non-negative integer. \<open>countProfile\<close> says that
  every number of a profile is one.
\<close>

definition isCount :: "jsnum \<Rightarrow> bool" where
  "isCount x \<longleftrightarrow> (case x of Fin r \<Rightarrow> 0 \<le> r \<and> of_int \<lfloor>r\<rfloor> = r | _ \<Rightarrow> False)"

definition natOf :: "jsnum \<Rightarrow> nat" where
  "natOf x = (case x of Fin r \<Rightarrow> nat \<lfloor>r\<rfloor> | _ \<Rightarrow> 0)"

definition countColumn :: "columnProfile \<Rightarrow> bool" where
  "countColumn c \<longleftrightarrow>
     isCount (missingValues c) \<and> isCount (uniqueValues c) \<and>
     (case nonNumericCount c of None \<Rightarrow> True | Some n \<Rightarrow> isCount n)"

definition countProfile :: "'a fileProfile_scheme \<Rightarrow> bool" where
  "countProfile p \<longleftrightarrow>
     isCount (rowCount p) \<and> isCount (columnCount p) \<and> list_all countColumn (columns p)"

text \<open>
  What one selection does to the column it names and to the running maximum, and the
  first phase of \<open>processFile\<close>: all selections of the file, one after the other.
\<close>

definition columnEffect :: "appliedAction \<Rightarrow> columnProfile \<Rightarrow> columnProfile" where
  "columnEffect a col = fst (applyAction a (col, Fin 0))"

definition maxEffect :: "appliedAction \<Rightarrow> columnProfile \<Rightarrow> jsnum \<Rightarrow> jsnum" where
  "maxEffect a col mx = snd (applyAction a (col, mx))"

definition perColumn :: "columnProfile list \<Rightarrow> jsnum \<Rightarrow> appliedAction list \<Rightarrow> columnProfile list \<times> jsnum"
  where
  "perColumn cols mx actions = foldl (\<lambda>(cs, m) a. actionOnColumns a cs m) (cols, mx) actions"

text \<open>
  The selection of a batch that names a column, the column after the selection made for
  it (or as it was, without one), and the maximum as read from given columns.
\<close>

definition selectionFor :: "appliedAction list \<Rightarrow> columnProfile \<Rightarrow> appliedAction option" where
  "selectionFor actions col = find (\<lambda>a. column a = name col) actions"

definition afterActions :: "appliedAction list \<Rightarrow> columnProfile \<Rightarrow> columnProfile" where
  "afterActions actions col =
     (case selectionFor actions col of None \<Rightarrow> col | Some a \<Rightarrow> columnEffect a col)"

definition readMax :: "columnProfile list \<Rightarrow> jsnum \<Rightarrow> appliedAction \<Rightarrow> jsnum" where
  "readMax cols mx a =
     (case find (\<lambda>c. name c = column a) cols of None \<Rightarrow> mx | Some c \<Rightarrow> maxEffect a c mx)"




section \<open>The handler on a store of objects (src/components/pages/DataCleaning.tsx)\<close>

text \<open>
  Profiles and columns are objects, and the handler writes to their fields in place.
  To say what it writes to, the objects are put in a store: a column object is a cell of
  \<open>colObjs\<close>, a profile object a cell of \<open>profObjs\<close> whose \<open>o_columns\<close> holds the
  references of its column objects, and the profile map is a list of properties, each a
  file name with the reference of a profile object. A new object takes the next free
  cell.
\<close>

record profObj =
  o_rowCount :: jsnum
  o_columnCount :: jsnum
  o_columns :: "nat list"
  o_aiInsights :: "aIInsights option"

record store =
  colObjs :: "columnProfile list"
  profObjs :: "profObj list"

definition derefProfile :: "store \<Rightarrow> nat \<Rightarrow> fullProfileResult" where
  "derefProfile s r =
     (let po = profObjs s ! r
      in \<lparr>rowCount = o_rowCount po, columnCount = o_columnCount po,
          columns = map (\<lambda>c. colObjs s ! c) (o_columns po),
          aiInsights = o_aiInsights po\<rparr>)"

definition derefMap :: "store \<Rightarrow> (jsstring \<times> nat) list \<Rightarrow> (jsstring \<rightharpoonup> fullProfileResult)" where
  "derefMap s pmap = map_of (map (\<lambda>(f, r). (f, derefProfile s r)) pmap)"

text \<open>\<^verbatim>\<open>JSON.parse(JSON.stringify(profiles))\<close> builds new objects for the whole structure.\<close>

definition copyProfile :: "store \<Rightarrow> nat \<Rightarrow> store \<times> nat" where
  "copyProfile s r =
     (let po = profObjs s ! r;
          newCols = map (\<lambda>c. jsonColumn (colObjs s ! c)) (o_columns po);
          po' = \<lparr>o_rowCount = jsonNumber (o_rowCount po),
                 o_columnCount = jsonNumber (o_columnCount po),
                 o_columns = [length (colObjs s) ..< length (colObjs s) + length newCols],
                 o_aiInsights = o_aiInsights po\<rparr>
      in (\<lparr>colObjs = colObjs s @ newCols, profObjs = profObjs s @ [po']\<rparr>,
          length (profObjs s)))"

fun copyMap :: "store \<Rightarrow> (jsstring \<times> nat) list \<Rightarrow> store \<times> (jsstring \<times> nat) list" where
  "copyMap s [] = (s, [])"
| "copyMap s ((f, r) # rest) =
     (let (s1, r') = copyProfile s r;
          (s2, rest') = copyMap s1 rest
      in (s2, (f, r') # rest'))"

text \<open>The handler's iterations, writing to the objects the references lead to.\<close>

definition actionOnObjects :: "appliedAction \<Rightarrow> nat list \<Rightarrow> store \<times> jsnum \<Rightarrow> store \<times> jsnum" where
  "actionOnObjects a colRefs st =
     (let (s, mx) = st
      in case find (\<lambda>c. name (colObjs s ! c) = column a) colRefs of
           None \<Rightarrow> (s, mx)
         | Some c \<Rightarrow>
             (let (col', mx') = applyAction a (colObjs s ! c, mx)
              in (s\<lparr>colObjs := (colObjs s)[c := col']\<rparr>, mx')))"

definition propagateObject :: "appliedAction list \<Rightarrow> jsnum \<Rightarrow> jsnum \<Rightarrow> store \<Rightarrow> nat \<Rightarrow> store" where
  "propagateObject actions mx orig s c =
     s\<lparr>colObjs := (colObjs s)[c := propagate actions mx orig (colObjs s ! c)]\<rparr>"

definition processObject :: "store \<Rightarrow> nat \<Rightarrow> appliedAction list \<Rightarrow> store" where
  "processObject s r actions =
     (let colRefs = o_columns (profObjs s ! r);
          (s1, maxRowsToRemove) = foldl (\<lambda>st a. actionOnObjects a colRefs st) (s, Fin 0) actions
      in if js_gt maxRowsToRemove (Fin 0)
         then (let originalRowCount = o_rowCount (profObjs s1 ! r);
                   s2 = s1\<lparr>profObjs := (profObjs s1)
                          [r := (profObjs s1 ! r)
                             \<lparr>o_rowCount := floorZero (js_sub originalRowCount maxRowsToRemove)\<rparr>]\<rparr>
               in foldl (propagateObject actions maxRowsToRemove originalRowCount) s2 colRefs)
         else s1)"

definition groupsOnStore ::
  "(jsstring \<times> nat) list \<Rightarrow> store \<Rightarrow> (jsstring \<times> appliedAction list) list \<Rightarrow> store" where
  "groupsOnStore newMap s groups =
     foldl (\<lambda>s' (fName, actions).
              case map_of newMap fName of
                None \<Rightarrow> s'
              | Some r \<Rightarrow> processObject s' r actions)
       s groups"

text \<open>
  The handler: the store it leaves, with the reference of the map passed to
  \<open>setProfiles\<close>, or the error raised, after which \<open>profiles\<close> still refers to the old map.
\<close>

definition applyOnStore ::
  "store \<Rightarrow> (jsstring \<times> nat) list \<Rightarrow> (jsstring \<times> appliedAction) list
     \<Rightarrow> store \<times> (error + (jsstring \<times> nat) list)" where
  "applyOnStore s pmap selectedActions =
     (let (s1, newMap) = copyMap s pmap
      in case actionsByFile selectedActions of
           Inl e \<Rightarrow> (s1, Inl e)
         | Inr groups \<Rightarrow> (groupsOnStore newMap s1 groups, Inr newMap))"

text \<open>A store with a profile map in it: every reference leads to an object.\<close>

definition wfStore :: "store \<Rightarrow> (jsstring \<times> nat) list \<Rightarrow> bool" where
  "wfStore s pmap \<longleftrightarrow>
     distinct (map fst pmap) \<and>
     list_all (\<lambda>(f, r). r < length (profObjs s) \<and>
        list_all (\<lambda>c. c < length (colObjs s)) (o_columns (profObjs s ! r))) pmap"

text \<open>
  \<open>untouched C P s0 s\<close>: the first \<open>C\<close> column objects and the first \<open>P\<close> profile objects
  of \<open>s\<close> are those of \<open>s0\<close>, and the later profile objects only refer to later column
  objects.
\<close>

definition untouched :: "nat \<Rightarrow> nat \<Rightarrow> store \<Rightarrow> store \<Rightarrow> bool" where
  "untouched C P s0 s \<longleftrightarrow>
     take C (colObjs s) = take C (colObjs s0) \<and> take P (profObjs s) = take P (profObjs s0) \<and>
     (\<forall>r. P \<le> r \<and> r < length (profObjs s) \<longrightarrow> (\<forall>c \<in> set (o_columns (profObjs s ! r)). C \<le> c))"

text \<open>
  \<open>separate s rs\<close>: the profile objects \<open>rs\<close> of \<open>s\<close> are distinct objects with distinct
  column objects, and no two of them share a column object.
\<close>

definition separate :: "store \<Rightarrow> nat list \<Rightarrow> bool" where
  "separate s rs \<longleftrightarrow>
     distinct rs \<and>
     (\<forall>r \<in> set rs. r < length (profObjs s) \<and> distinct (o_columns (profObjs s ! r)) \<and>
        (\<forall>c \<in> set (o_columns (profObjs s ! r)). c < length (colObjs s))) \<and>
     (\<forall>r \<in> set rs. \<forall>q \<in> set rs. r \<noteq> q \<longrightarrow>
        set (o_columns (profObjs s ! r)) \<inter> set (o_columns (profObjs s ! q)) = {})"

text \<open>
  The numbers that come back from \<^verbatim>\<open>JSON.parse(JSON.stringify(x))\<close> as they went in: all
  but \<open>NaN\<close> and the infinities.
\<close>

definition jsonStable :: "jsnum \<Rightarrow> bool" where
  "jsonStable x \<longleftrightarrow> x \<noteq> NaN \<and> x \<noteq> PosInf \<and> x \<noteq> NegInf"

definition stableColumn :: "columnProfile \<Rightarrow> bool" where
  "stableColumn c \<longleftrightarrow>
     jsonStable (missingValues c) \<and> jsonStable (uniqueValues c) \<and>
     (case nonNumericCount c of None \<Rightarrow> True | Some n \<Rightarrow> jsonStable n)"

definition stableProfile :: "'a fileProfile_scheme \<Rightarrow> bool" where
  "stableProfile p \<longleftrightarrow>
     jsonStable (rowCount p) \<and> jsonStable (columnCount p) \<and> list_all stableColumn (columns p)"


section \<open>Properties of the profiler\<close>

subsection \<open>The numeric pattern\<close>

lemma nullable_lang: "nullable r \<longleftrightarrow> [] \<in> lang r"
  by (induction r) (auto simp: lang_seq_def intro: iter_empty)

lemma iter_cons:
  "c # w \<in> lang_iter A \<longleftrightarrow> (\<exists>u v. w = u @ v \<and> c # u \<in> A \<and> v \<in> lang_iter A)"
proof
  assume "c # w \<in> lang_iter A"
  then show "\<exists>u v. w = u @ v \<and> c # u \<in> A \<and> v \<in> lang_iter A"
  proof (induction "c # w" arbitrary: w rule: lang_iter.induct)
    case (iter_more u v)
    show ?case
    proof (cases u)
      case Nil
      with iter_more show ?thesis by simp
    next
      case (Cons a u')
      with iter_more.hyps(1,2,4) show ?thesis by auto
    qed
  qed
next
  assume "\<exists>u v. w = u @ v \<and> c # u \<in> A \<and> v \<in> lang_iter A"
  then obtain u v where "w = u @ v" "c # u \<in> A" "v \<in> lang_iter A" by blast
  then show "c # w \<in> lang_iter A"
    using iter_more [of "c # u" A v] by simp
qed

lemma seq_cons:
  "c # w \<in> lang_seq A B \<longleftrightarrow>
     (\<exists>u v. w = u @ v \<and> c # u \<in> A \<and> v \<in> B) \<or> ([] \<in> A \<and> c # w \<in> B)"
  unfolding lang_seq_def
  by (auto simp: Cons_eq_append_conv)

lemma deriv_lang: "w \<in> lang (deriv c r) \<longleftrightarrow> c # w \<in> lang r"
proof (induction r arbitrary: w)
  case (Seq r s)
  then show ?case
    by (auto simp: seq_cons nullable_lang) (auto simp: lang_seq_def)
next
  case (Star r)
  then show ?case
    by (auto simp: iter_cons lang_seq_def)
qed auto

lemma regex_test_lang: "regex_test r s \<longleftrightarrow> s \<in> lang r"
  by (induction s arbitrary: r) (simp_all add: nullable_lang deriv_lang)

lemma iter_atom: "lang_iter {[c] | c. p c} = {w. \<forall>c \<in> set w. p c}"
proof (intro set_eqI iffI)
  fix w assume "w \<in> lang_iter {[c] | c. p c}"
  then show "w \<in> {w. \<forall>c \<in> set w. p c}"
    by (induction rule: lang_iter.induct) auto
next
  fix w assume "w \<in> {w. \<forall>c \<in> set w. p c}"
  then have "\<forall>c \<in> set w. p c" by simp
  then show "w \<in> lang_iter {[c] | c. p c}"
  proof (induction w)
    case Nil
    show ?case by (rule iter_empty)
  next
    case (Cons a w)
    then have "[a] \<in> {[c] | c. p c}" "w \<in> lang_iter {[c] | c. p c}" by auto
    then have "[a] @ w \<in> lang_iter {[c] | c. p c}" by (rule iter_more)
    then show ?case by simp
  qed
qed

lemma seq_mem: "w \<in> lang_seq A B \<longleftrightarrow> (\<exists>u v. w = u @ v \<and> u \<in> A \<and> v \<in> B)"
  by (auto simp: lang_seq_def)

lemma opt_atom_lang: "w \<in> lang (Maybe (Atom p)) \<longleftrightarrow> w = [] \<or> (\<exists>c. w = [c] \<and> p c)"
  by (auto simp: Maybe_def)

lemma star_atom_lang: "w \<in> lang (Star (Atom p)) \<longleftrightarrow> (\<forall>c \<in> set w. p c)"
  by (simp add: iter_atom)

lemma plus_atom_lang: "w \<in> lang (Many1 (Atom p)) \<longleftrightarrow> w \<noteq> [] \<and> (\<forall>c \<in> set w. p c)"
proof
  assume "w \<in> lang (Many1 (Atom p))"
  then show "w \<noteq> [] \<and> (\<forall>c \<in> set w. p c)"
    by (auto simp: Many1_def lang_seq_def iter_atom)
next
  assume h: "w \<noteq> [] \<and> (\<forall>c \<in> set w. p c)"
  then obtain a w' where w: "w = [a] @ w'" by (cases w) auto
  with h have "[a] \<in> lang (Atom p)" "w' \<in> lang (Star (Atom p))"
    by (auto simp: iter_atom)
  then show "w \<in> lang (Many1 (Atom p))"
    unfolding w Many1_def lang.simps(5) seq_mem by blast
qed

lemma numericPattern_lang:
  "s \<in> lang numericPattern \<longleftrightarrow>
     (\<exists>sg d1 pt d2. s = sg @ d1 @ pt @ d2 \<and> (sg = [] \<or> sg = [0x2D]) \<and>
        (\<forall>c \<in> set d1. isDigit c) \<and> (pt = [] \<or> pt = [0x2E]) \<and>
        d2 \<noteq> [] \<and> (\<forall>c \<in> set d2. isDigit c))"
proof -
  have "s \<in> lang numericPattern \<longleftrightarrow>
     (\<exists>sg r1. s = sg @ r1 \<and> sg \<in> lang (Maybe (Atom (\<lambda>c. c = 0x2D))) \<and>
       (\<exists>d1 r2. r1 = d1 @ r2 \<and> d1 \<in> lang (Star (Atom isDigit)) \<and>
         (\<exists>pt d2. r2 = pt @ d2 \<and> pt \<in> lang (Maybe (Atom (\<lambda>c. c = 0x2E))) \<and>
            d2 \<in> lang (Many1 (Atom isDigit)))))"
    unfolding numericPattern_def lang.simps(5) seq_mem ..
  also have "\<dots> \<longleftrightarrow>
     (\<exists>sg d1 pt d2. s = sg @ d1 @ pt @ d2 \<and> sg \<in> lang (Maybe (Atom (\<lambda>c. c = 0x2D))) \<and>
        d1 \<in> lang (Star (Atom isDigit)) \<and> pt \<in> lang (Maybe (Atom (\<lambda>c. c = 0x2E))) \<and>
        d2 \<in> lang (Many1 (Atom isDigit)))"
    by blast
  also have "\<dots> \<longleftrightarrow>
     (\<exists>sg d1 pt d2. s = sg @ d1 @ pt @ d2 \<and> (sg = [] \<or> sg = [0x2D]) \<and>
        (\<forall>c \<in> set d1. isDigit c) \<and> (pt = [] \<or> pt = [0x2E]) \<and>
        d2 \<noteq> [] \<and> (\<forall>c \<in> set d2. isDigit c))"
    unfolding opt_atom_lang star_atom_lang plus_atom_lang by simp
  finally show ?thesis .
qed

text \<open>
  \<open>isNumeric\<close> holds exactly of the strings whose trimmed form is an optional minus sign,
  digits, an optional point and at least one more digit.
\<close>

lemma isNumeric_iff:
  "isNumeric v \<longleftrightarrow>
     (\<exists>sg d1 pt d2. trim v = sg @ d1 @ pt @ d2 \<and> (sg = [] \<or> sg = [0x2D]) \<and>
        (\<forall>c \<in> set d1. isDigit c) \<and> (pt = [] \<or> pt = [0x2E]) \<and>
        d2 \<noteq> [] \<and> (\<forall>c \<in> set d2. isDigit c))"
proof (cases "trim v = []")
  case True
  then show ?thesis by (simp add: isNumeric_def)
next
  case False
  then show ?thesis
    by (simp only: isNumeric_def if_False regex_test_lang numericPattern_lang)
qed

lemma isNumeric_not_missing: "isNumeric v \<Longrightarrow> \<not> isMissing v"
  by (auto simp: isNumeric_def isMissing_def)

subsection \<open>Type inference\<close>

lemma inferType_unknown:
  "filter (\<lambda>v. \<not> isMissing v) vals = [] \<Longrightarrow> inferType vals = (T_unknown, 0)"
  by (simp add: inferType_def)

lemma inferType_number:
  "filter (\<lambda>v. \<not> isMissing v) vals \<noteq> [] \<Longrightarrow> \<forall>v \<in> set vals. \<not> isMissing v \<longrightarrow> isNumeric v \<Longrightarrow>
     inferType vals = (T_number, 0)"
  by (auto simp: inferType_def Let_def filter_empty_conv)

lemma inferType_string:
  "filter (\<lambda>v. \<not> isMissing v) vals \<noteq> [] \<Longrightarrow> \<forall>v \<in> set vals. \<not> isMissing v \<longrightarrow> \<not> isNumeric v \<Longrightarrow>
     inferType vals = (T_string, 0)"
  by (auto simp: inferType_def Let_def filter_empty_conv)

lemma inferType_mixed:
  "\<exists>v \<in> set vals. \<not> isMissing v \<and> isNumeric v \<Longrightarrow>
   \<exists>v \<in> set vals. \<not> isMissing v \<and> \<not> isNumeric v \<Longrightarrow>
     inferType vals =
       (T_mixed, length (filter (\<lambda>v. \<not> isMissing v \<and> \<not> isNumeric v) vals))"
proof -
  assume a: "\<exists>v \<in> set vals. \<not> isMissing v \<and> isNumeric v"
    and b: "\<exists>v \<in> set vals. \<not> isMissing v \<and> \<not> isNumeric v"
  have filt: "filter (\<lambda>v. \<not> isNumeric v) (filter (\<lambda>v. \<not> isMissing v) vals) =
      filter (\<lambda>v. \<not> isMissing v \<and> \<not> isNumeric v) vals"
    by (simp add: conj_commute)
  from a have 1: "filter isNumeric (filter (\<lambda>v. \<not> isMissing v) vals) \<noteq> []"
    by (auto simp: filter_empty_conv)
  from b have 2: "filter (\<lambda>v. \<not> isNumeric v) (filter (\<lambda>v. \<not> isMissing v) vals) \<noteq> []"
    by (auto simp: filter_empty_conv)
  from a have 3: "filter (\<lambda>v. \<not> isMissing v) vals \<noteq> []"
    by (auto simp: filter_empty_conv)
  show ?thesis
    using 1 2 3 unfolding inferType_def Let_def filt by simp
qed

lemma inferType_range:
  "fst (inferType vals) \<in> {T_unknown, T_number, T_string, T_mixed}"
  by (simp add: inferType_def Let_def)

lemma profileColumn_dataType: "dataType (profileColumn nm vals) = fst (inferType vals)"
  by (simp add: profileColumn_def Let_def split: prod.split)

lemma profileColumn_nonNumericCount:
  "nonNumericCount (profileColumn nm vals) =
     (if fst (inferType vals) = T_mixed then Some (count (snd (inferType vals))) else None)"
  by (simp add: profileColumn_def Let_def split: prod.split)

lemma profileColumn_missingValues:
  "missingValues (profileColumn nm vals) = count (length (filter isMissing vals))"
  by (simp add: profileColumn_def Let_def split: prod.split)


text \<open>
  C4. Type inference is a case analysis on the non-missing values of a column: none gives
  \<open>unknown\<close>, all numeric gives \<open>number\<close>, none numeric gives \<open>string\<close>, otherwise
  \<open>mixed\<close> with \<open>nonNumericCount\<close> the number of non-numeric non-missing values;
  \<open>nonNumericCount\<close> is absent outside the mixed case. A value is numeric iff its trimmed
  form is an optional minus sign, digits, an optional point and at least one digit (so
  no exponent, no separator, no plus sign). The two columns of the specification's
  example profile as stated.
\<close>

theorem type_inference:
  "(filter (\<lambda>v. \<not> isMissing v) vals = [] \<longrightarrow>
      dataType (profileColumn nm vals) = T_unknown \<and>
      nonNumericCount (profileColumn nm vals) = None) \<and>
   (filter (\<lambda>v. \<not> isMissing v) vals \<noteq> [] \<and> (\<forall>v \<in> set vals. \<not> isMissing v \<longrightarrow> isNumeric v) \<longrightarrow>
      dataType (profileColumn nm vals) = T_number \<and>
      nonNumericCount (profileColumn nm vals) = None) \<and>
   (filter (\<lambda>v. \<not> isMissing v) vals \<noteq> [] \<and> (\<forall>v \<in> set vals. \<not> isMissing v \<longrightarrow> \<not> isNumeric v) \<longrightarrow>
      dataType (profileColumn nm vals) = T_string \<and>
      nonNumericCount (profileColumn nm vals) = None) \<and>
   ((\<exists>v \<in> set vals. \<not> isMissing v \<and> isNumeric v) \<and>
    (\<exists>v \<in> set vals. \<not> isMissing v \<and> \<not> isNumeric v) \<longrightarrow>
      dataType (profileColumn nm vals) = T_mixed \<and>
      nonNumericCount (profileColumn nm vals) =
        Some (count (length (filter (\<lambda>v. \<not> isMissing v \<and> \<not> isNumeric v) vals)))) \<and>
   (isNumeric v \<longleftrightarrow>
      (\<exists>sg d1 pt d2. trim v = sg @ d1 @ pt @ d2 \<and> (sg = [] \<or> sg = [0x2D]) \<and>
         (\<forall>c \<in> set d1. isDigit c) \<and> (pt = [] \<or> pt = [0x2E]) \<and>
         d2 \<noteq> [] \<and> (\<forall>c \<in> set d2. isDigit c))) \<and>
   profileColumn nm [js ''10'', js ''20.5'', js ''-3''] =
     \<lparr>name = nm, dataType = T_number, missingValues = Fin 0, uniqueValues = Fin 3,
      nonNumericCount = None\<rparr> \<and>
   profileColumn nm [js ''10'', js ''abc'', js ''''] =
     \<lparr>name = nm, dataType = T_mixed, missingValues = Fin 1, uniqueValues = Fin 2,
      nonNumericCount = Some (Fin 1)\<rparr>"
proof -
  have A: "filter (\<lambda>v. \<not> isMissing v) vals = [] \<longrightarrow>
      dataType (profileColumn nm vals) = T_unknown \<and>
      nonNumericCount (profileColumn nm vals) = None"
    by (simp add: profileColumn_dataType profileColumn_nonNumericCount inferType_unknown)
  have B: "filter (\<lambda>v. \<not> isMissing v) vals \<noteq> [] \<and> (\<forall>v \<in> set vals. \<not> isMissing v \<longrightarrow> isNumeric v) \<longrightarrow>
      dataType (profileColumn nm vals) = T_number \<and>
      nonNumericCount (profileColumn nm vals) = None"
    by (simp add: profileColumn_dataType profileColumn_nonNumericCount inferType_number)
  have C: "filter (\<lambda>v. \<not> isMissing v) vals \<noteq> [] \<and> (\<forall>v \<in> set vals. \<not> isMissing v \<longrightarrow> \<not> isNumeric v) \<longrightarrow>
      dataType (profileColumn nm vals) = T_string \<and>
      nonNumericCount (profileColumn nm vals) = None"
    by (simp add: profileColumn_dataType profileColumn_nonNumericCount inferType_string)
  have D: "(\<exists>v \<in> set vals. \<not> isMissing v \<and> isNumeric v) \<and>
    (\<exists>v \<in> set vals. \<not> isMissing v \<and> \<not> isNumeric v) \<longrightarrow>
      dataType (profileColumn nm vals) = T_mixed \<and>
      nonNumericCount (profileColumn nm vals) =
        Some (count (length (filter (\<lambda>v. \<not> isMissing v \<and> \<not> isNumeric v) vals)))"
    by (simp add: profileColumn_dataType profileColumn_nonNumericCount inferType_mixed)
  have E: "profileColumn nm [js ''10'', js ''20.5'', js ''-3''] =
     \<lparr>name = nm, dataType = T_number, missingValues = Fin 0, uniqueValues = Fin 3,
      nonNumericCount = None\<rparr>"
    by code_simp
  have F: "profileColumn nm [js ''10'', js ''abc'', js ''''] =
     \<lparr>name = nm, dataType = T_mixed, missingValues = Fin 1, uniqueValues = Fin 2,
      nonNumericCount = Some (Fin 1)\<rparr>"
    by code_simp
  from A B C D E F isNumeric_iff [of v] show ?thesis by blast
qed


theorem type_inference_witness:
  "(\<exists>v \<in> set [js ''7'', js '' '', js ''n/a'']. \<not> isMissing v \<and> isNumeric v) \<and>
   (\<exists>v \<in> set [js ''7'', js '' '', js ''n/a'']. \<not> isMissing v \<and> \<not> isNumeric v) \<and>
   dataType (profileColumn (js ''qty'') [js ''7'', js '' '', js ''n/a'']) = T_mixed \<and>
   nonNumericCount (profileColumn (js ''qty'') [js ''7'', js '' '', js ''n/a'']) = Some (Fin 1)"
proof -
  have n: "\<not> isMissing (js ''7'') \<and> isNumeric (js ''7'')"
    by code_simp
  have s: "\<not> isMissing (js ''n/a'') \<and> \<not> isNumeric (js ''n/a'')"
    by code_simp
  have c: "count (length (filter (\<lambda>v. \<not> isMissing v \<and> \<not> isNumeric v)
      [js ''7'', js '' '', js ''n/a''])) = Fin 1"
    by code_simp
  from n have 1: "\<exists>v \<in> set [js ''7'', js '' '', js ''n/a'']. \<not> isMissing v \<and> isNumeric v"
    by simp
  from s have 2: "\<exists>v \<in> set [js ''7'', js '' '', js ''n/a'']. \<not> isMissing v \<and> \<not> isNumeric v"
    by simp
  from 1 2 type_inference [of "[js ''7'', js '' '', js ''n/a'']" "js ''qty''" "[]"]
  have "dataType (profileColumn (js ''qty'') [js ''7'', js '' '', js ''n/a'']) = T_mixed \<and>
      nonNumericCount (profileColumn (js ''qty'') [js ''7'', js '' '', js ''n/a'']) =
        Some (count (length (filter (\<lambda>v. \<not> isMissing v \<and> \<not> isNumeric v)
          [js ''7'', js '' '', js ''n/a''])))"
    by blast
  with 1 2 c show ?thesis by simp
qed

subsection \<open>Profiling a grid\<close>

lemma trim_Nil: "trim [] = []"
  by (simp add: trim_def)

lemma columnValues_stringifyRows:
  "j < length header \<Longrightarrow>
     map (\<lambda>row. row ! j) (stringifyRows numstr header rawRows) =
     map (\<lambda>row. stringifyCell numstr (cellAt row j)) rawRows"
  by (simp add: stringifyRows_def)

lemma isMissing_stringifyCell:
  "isMissing (stringifyCell numstr (cellAt row j)) \<longleftrightarrow> cellMissing numstr row j"
  by (auto simp: isMissing_def stringifyCell_def cellMissing_def trim_Nil)

lemma basicProfile_Inr:
  "basicProfile numstr header rawRows = Inr prof \<Longrightarrow>
     prof = \<lparr>rowCount = count (length rawRows), columnCount = count (length header),
       columns = map (\<lambda>j. profileColumn (header ! j)
           (map (\<lambda>row. stringifyCell numstr (cellAt row j)) rawRows)) [0..<length header]\<rparr>"
proof -
  assume p: "basicProfile numstr header rawRows = Inr prof"
  have cols: "map (\<lambda>j. profileColumn (header ! j)
        (map (\<lambda>row. row ! j) (stringifyRows numstr header rawRows))) [0..<length header] =
      map (\<lambda>j. profileColumn (header ! j)
        (map (\<lambda>row. stringifyCell numstr (cellAt row j)) rawRows)) [0..<length header]"
    by (rule map_cong) (simp_all add: columnValues_stringifyRows)
  have len: "length (stringifyRows numstr header rawRows) = length rawRows"
    by (simp add: stringifyRows_def)
  from p show ?thesis
    unfolding basicProfile_def Let_def cols len by (simp split: if_splits)
qed

lemma basicProfile_column:
  assumes "basicProfile numstr header rawRows = Inr prof" and "j < length header"
  shows "columns prof ! j =
     profileColumn (header ! j) (map (\<lambda>row. stringifyCell numstr (cellAt row j)) rawRows)"
  using assms(2) by (simp add: basicProfile_Inr [OF assms(1)])

lemma count_add: "js_add (count m) (count n) = count (m + n)"
  by (simp add: js_add_def count_def)

text \<open>
  C3. For a grid that is profiled without error and every column \<open>j\<close> of its header:
  \<open>rowCount\<close> is the number of data rows, \<open>missingValues\<close> is the number of rows whose
  cell \<open>j\<close> is missing (null, undefined or beyond the end of the row, or empty after
  trimming), and \<open>missingValues\<close> plus the number of rows whose cell is not missing is
  \<open>rowCount\<close>.
\<close>

theorem count_invariant:
  assumes "basicProfile numstr header rawRows = Inr prof" and "j < length header"
  shows "rowCount prof = count (length rawRows) \<and>
     missingValues (columns prof ! j) =
       count (length (filter (\<lambda>row. cellMissing numstr row j) rawRows)) \<and>
     js_add (missingValues (columns prof ! j))
        (count (length (filter (\<lambda>row. \<not> cellMissing numstr row j) rawRows))) =
       rowCount prof"
proof -
  have r: "rowCount prof = count (length rawRows)"
    by (simp add: basicProfile_Inr [OF assms(1)])
  have m: "missingValues (columns prof ! j) =
       count (length (filter (\<lambda>row. cellMissing numstr row j) rawRows))"
    by (simp add: basicProfile_column [OF assms] profileColumn_missingValues filter_map
        o_def isMissing_stringifyCell)
  have "length (filter (\<lambda>row. cellMissing numstr row j) rawRows) +
      length (filter (\<lambda>row. \<not> cellMissing numstr row j) rawRows) = length rawRows"
    by (rule sum_length_filter_compl)
  with r m show ?thesis by (simp add: count_add)
qed

theorem count_invariant_witness:
  "basicProfile (\<lambda>n::nat. js ''0'') [js ''id''] [[CNull], [CNumber 4], []] =
     Inr \<lparr>rowCount = Fin 3, columnCount = Fin 1,
       columns = [\<lparr>name = js ''id'', dataType = T_number, missingValues = Fin 2,
                   uniqueValues = Fin 1, nonNumericCount = None\<rparr>]\<rparr> \<and>
   (0::nat) < length [js ''id''] \<and>
   js_add (Fin 2)
     (count (length (filter (\<lambda>row. \<not> cellMissing (\<lambda>n::nat. js ''0'') row 0)
        [[CNull], [CNumber 4], []]))) = Fin 3"
proof -
  have p: "basicProfile (\<lambda>n::nat. js ''0'') [js ''id''] [[CNull], [CNumber 4], []] =
     Inr \<lparr>rowCount = Fin 3, columnCount = Fin 1,
       columns = [\<lparr>name = js ''id'', dataType = T_number, missingValues = Fin 2,
                   uniqueValues = Fin 1, nonNumericCount = None\<rparr>]\<rparr>"
    by code_simp
  have l: "(0::nat) < length [js ''id'']" by simp
  have "js_add (missingValues (columns \<lparr>rowCount = Fin 3, columnCount = Fin 1,
       columns = [\<lparr>name = js ''id'', dataType = T_number, missingValues = Fin 2,
                   uniqueValues = Fin 1, nonNumericCount = None\<rparr>]\<rparr> ! 0))
     (count (length (filter (\<lambda>row. \<not> cellMissing (\<lambda>n::nat. js ''0'') row 0)
        [[CNull], [CNumber 4], []]))) =
     rowCount \<lparr>rowCount = Fin 3, columnCount = Fin 1,
       columns = [\<lparr>name = js ''id'', dataType = T_number, missingValues = Fin 2,
                   uniqueValues = Fin 1, nonNumericCount = None\<rparr>]\<rparr>"
    using count_invariant [OF p l] by blast
  then have "js_add (Fin 2)
     (count (length (filter (\<lambda>row. \<not> cellMissing (\<lambda>n::nat. js ''0'') row 0)
        [[CNull], [CNumber 4], []]))) = Fin 3"
    by (simp only: fileProfile.simps columnProfile.simps nth_Cons_0)
  with p l show ?thesis by blast
qed

text \<open>
  C10. The profiler never infers \<open>boolean\<close>: the type of a profiled column is one of
  \<open>unknown\<close>, \<open>number\<close>, \<open>string\<close>, \<open>mixed\<close>, for a list of values and for every
  column of a profiled grid; a non-empty column of the strings \<open>true\<close> and \<open>false\<close>, and
  a column of boolean cells of a grid, is a \<open>string\<close> column.
\<close>

theorem no_boolean:
  "dataType (profileColumn nm vals) \<in> {T_unknown, T_number, T_string, T_mixed} \<and>
   (basicProfile numstr header rawRows = Inr prof \<longrightarrow>
      (\<forall>c \<in> set (columns prof). dataType c \<noteq> T_boolean)) \<and>
   (vals \<noteq> [] \<and> (\<forall>v \<in> set vals. v = js ''true'' \<or> v = js ''false'') \<longrightarrow>
      dataType (profileColumn nm vals) = T_string) \<and>
   (basicProfile numstr header rawRows = Inr prof \<and> j < length header \<and> rawRows \<noteq> [] \<and>
      (\<forall>row \<in> set rawRows. \<exists>b. cellAt row j = CBoolean b) \<longrightarrow>
      dataType (columns prof ! j) = T_string)"
proof -
  have A: "dataType (profileColumn nm vals) \<in> {T_unknown, T_number, T_string, T_mixed}" for nm vals
    using inferType_range [of vals] by (simp add: profileColumn_dataType)
  have B: "basicProfile numstr header rawRows = Inr prof \<longrightarrow>
      (\<forall>c \<in> set (columns prof). dataType c \<noteq> T_boolean)"
  proof (intro impI ballI)
    fix c assume p: "basicProfile numstr header rawRows = Inr prof" and "c \<in> set (columns prof)"
    then obtain nm vals where "c = profileColumn nm vals"
      unfolding basicProfile_Inr [OF p] by auto
    with A [of nm vals] show "dataType c \<noteq> T_boolean" by auto
  qed
  have tf: "\<not> isMissing v \<and> \<not> isNumeric v" if "v = js ''true'' \<or> v = js ''false''" for v
  proof -
    have "\<not> isMissing (js ''true'') \<and> \<not> isNumeric (js ''true'')" by code_simp
    moreover have "\<not> isMissing (js ''false'') \<and> \<not> isNumeric (js ''false'')" by code_simp
    ultimately show ?thesis using that by blast
  qed
  have C: "dataType (profileColumn nm vals) = T_string"
    if "vals \<noteq> []" "\<forall>v \<in> set vals. v = js ''true'' \<or> v = js ''false''" for nm vals
  proof -
    from that tf have all: "\<forall>v \<in> set vals. \<not> isMissing v \<and> \<not> isNumeric v" by blast
    with that(1) have "filter (\<lambda>v. \<not> isMissing v) vals \<noteq> []"
      by (cases vals) auto
    with all show ?thesis
      by (simp add: profileColumn_dataType inferType_string)
  qed
  have D: "dataType (columns prof ! j) = T_string"
    if p: "basicProfile numstr header rawRows = Inr prof" and j: "j < length header"
      and ne: "rawRows \<noteq> []" and b: "\<forall>row \<in> set rawRows. \<exists>b. cellAt row j = CBoolean b"
  proof -
    have "\<forall>v \<in> set (map (\<lambda>row. stringifyCell numstr (cellAt row j)) rawRows).
        v = js ''true'' \<or> v = js ''false''"
    proof (intro ballI)
      fix v assume "v \<in> set (map (\<lambda>row. stringifyCell numstr (cellAt row j)) rawRows)"
      then obtain row where row: "row \<in> set rawRows" and v: "v = stringifyCell numstr (cellAt row j)"
        by auto
      from b row obtain bb where "cellAt row j = CBoolean bb" by blast
      with v show "v = js ''true'' \<or> v = js ''false''"
        by (simp add: stringifyCell_def)
    qed
    with ne show ?thesis
      unfolding basicProfile_column [OF p j] by (intro C) auto
  qed
  from A B C D show ?thesis by blast
qed

theorem no_boolean_witness:
  "[js ''true'', js ''false'', js ''true''] \<noteq> [] \<and>
   list_all (\<lambda>v. v = js ''true'' \<or> v = js ''false'') [js ''true'', js ''false'', js ''true''] \<and>
   dataType (profileColumn (js ''active'') [js ''true'', js ''false'', js ''true'']) = T_string"
  using no_boolean [of "js ''active''" "[js ''true'', js ''false'', js ''true'']"
      "\<lambda>n::nat. []" "[]" "[]" undefined 0]
  by simp

section \<open>Properties of the issue detector\<close>

lemma positive_truthy: "js_gt n (Fin 0) \<Longrightarrow> truthy n"
  by (cases n) (auto simp: js_gt_def)

lemma pushIssues_eq:
  "pushIssues fName profile issues col =
     issues @ (if hasMissing col then [missingIssue fName profile col] else [])
            @ (if hasMixed col then [mixedIssue fName profile col] else [])"
  by (auto simp: pushIssues_def hasMissing_def hasMixed_def missingIssue_def mixedIssue_def
      truthyOpt_def Let_def positive_truthy split: option.splits)

lemma foldl_pushIssues:
  "foldl (pushIssues fName profile) issues cols =
     issues @ concat (map (\<lambda>col.
        (if hasMissing col then [missingIssue fName profile col] else [])
        @ (if hasMixed col then [mixedIssue fName profile col] else [])) cols)"
  by (induction cols arbitrary: issues) (simp_all add: pushIssues_eq)

lemma issuesToFetch_eq:
  "issuesToFetch fName profile =
     concat (map (\<lambda>col.
        (if hasMissing col then [missingIssue fName profile col] else [])
        @ (if hasMixed col then [mixedIssue fName profile col] else [])) (columns profile))"
  by (simp add: issuesToFetch_def foldl_pushIssues)

lemma concat_map_if: "concat (map (\<lambda>x. if P x then [f x] else []) xs) = map f (filter P xs)"
  by (induction xs) simp_all

lemma missing_issues:
  "filter (\<lambda>i. issueType i = Missing_values) (issuesToFetch fName profile) =
     map (missingIssue fName profile) (filter hasMissing (columns profile))"
proof -
  have "filter (\<lambda>i. issueType i = Missing_values) (issuesToFetch fName profile) =
      concat (map (\<lambda>col. if hasMissing col then [missingIssue fName profile col] else [])
        (columns profile))"
    unfolding issuesToFetch_eq filter_concat map_map
    by (rule arg_cong [where f = concat], rule map_cong)
      (simp_all add: missingIssue_def mixedIssue_def)
  then show ?thesis by (simp add: concat_map_if)
qed

lemma mixed_issues:
  "filter (\<lambda>i. issueType i = Mixed_type) (issuesToFetch fName profile) =
     map (mixedIssue fName profile) (filter hasMixed (columns profile))"
proof -
  have "filter (\<lambda>i. issueType i = Mixed_type) (issuesToFetch fName profile) =
      concat (map (\<lambda>col. if hasMixed col then [mixedIssue fName profile col] else [])
        (columns profile))"
    unfolding issuesToFetch_eq filter_concat map_map
    by (rule arg_cong [where f = concat], rule map_cong)
      (simp_all add: missingIssue_def mixedIssue_def)
  then show ?thesis by (simp add: concat_map_if)
qed

lemma issues_of_file:
  "i \<in> set (issuesToFetch fName profile) \<Longrightarrow>
     fileName i = fName \<and> totalRows (details i) = rowCount profile \<and>
     (\<exists>col \<in> set (columns profile). columnName i = name col)"
  by (auto simp: issuesToFetch_eq missingIssue_def mixedIssue_def split: if_splits)

lemma profileColumn_all_missing:
  assumes "\<forall>v \<in> set vals. isMissing v"
  shows "profileColumn nm vals =
     \<lparr>name = nm, dataType = T_unknown, missingValues = count (length vals),
      uniqueValues = Fin 0, nonNumericCount = None\<rparr>"
proof -
  from assms have 1: "filter (\<lambda>v. \<not> isMissing v) vals = []" "filter isMissing vals = vals"
    by (auto simp: filter_empty_conv)
  then show ?thesis
    by (simp add: profileColumn_def inferType_unknown count_def)
qed

text \<open>
  C6. The issues of a profile are, per kind and in column order, one \<open>missing_values\<close>
  descriptor for each column with \<open>missingValues > 0\<close> and one \<open>mixed_type\<close> descriptor
  for each column with \<open>dataType = mixed\<close> and \<open>nonNumericCount > 0\<close>, and nothing else.
  Every descriptor carries the file name, the column name, its kind, the count and the
  row count of the profile. A column with both conditions gets both descriptors; a
  non-empty column of blank values is profiled as \<open>unknown\<close> with no unique value and gets
  the \<open>missing_values\<close> descriptor only. The issues depend on the row count and the
  columns of the profile alone.
\<close>

theorem issue_detection:
  "filter (\<lambda>i. issueType i = Missing_values) (issuesToFetch fName profile) =
     map (missingIssue fName profile) (filter hasMissing (columns profile)) \<and>
   filter (\<lambda>i. issueType i = Mixed_type) (issuesToFetch fName profile) =
     map (mixedIssue fName profile) (filter hasMixed (columns profile)) \<and>
   (\<forall>i \<in> set (issuesToFetch fName profile).
      fileName i = fName \<and> totalRows (details i) = rowCount profile) \<and>
   (hasMissing col \<and> hasMixed col \<longrightarrow>
      issuesToFetch fName (profile\<lparr>columns := [col]\<rparr>) =
        [missingIssue fName profile col, mixedIssue fName profile col]) \<and>
   (vals \<noteq> [] \<and> (\<forall>v \<in> set vals. isMissing v) \<longrightarrow>
      dataType (profileColumn nm vals) = T_unknown \<and>
      uniqueValues (profileColumn nm vals) = Fin 0 \<and>
      issuesToFetch fName (profile\<lparr>columns := [profileColumn nm vals]\<rparr>) =
        [missingIssue fName profile (profileColumn nm vals)]) \<and>
   (rowCount profile' = rowCount profile \<and> columns profile' = columns profile \<longrightarrow>
      issuesToFetch fName profile' = issuesToFetch fName profile)"
proof -
  have A: "\<forall>i \<in> set (issuesToFetch fName profile).
      fileName i = fName \<and> totalRows (details i) = rowCount profile"
    using issues_of_file by blast
  have B: "hasMissing col \<and> hasMixed col \<longrightarrow>
      issuesToFetch fName (profile\<lparr>columns := [col]\<rparr>) =
        [missingIssue fName profile col, mixedIssue fName profile col]"
    by (simp add: issuesToFetch_eq missingIssue_def mixedIssue_def)
  have C: "dataType (profileColumn nm vals) = T_unknown \<and>
      uniqueValues (profileColumn nm vals) = Fin 0 \<and>
      issuesToFetch fName (profile\<lparr>columns := [profileColumn nm vals]\<rparr>) =
        [missingIssue fName profile (profileColumn nm vals)]"
    if ne: "vals \<noteq> []" and all: "\<forall>v \<in> set vals. isMissing v"
  proof -
    note p = profileColumn_all_missing [OF all, of nm]
    from ne have "hasMissing (profileColumn nm vals)"
      by (simp add: p hasMissing_def js_gt_def count_def)
    moreover have "\<not> hasMixed (profileColumn nm vals)"
      by (simp add: p hasMixed_def)
    ultimately show ?thesis
      by (simp add: issuesToFetch_eq missingIssue_def) (simp add: p)
  qed
  have D: "rowCount profile' = rowCount profile \<and> columns profile' = columns profile \<longrightarrow>
      issuesToFetch fName profile' = issuesToFetch fName profile"
  proof
    assume e: "rowCount profile' = rowCount profile \<and> columns profile' = columns profile"
    then have "missingIssue fName profile' = missingIssue fName profile"
      and "mixedIssue fName profile' = mixedIssue fName profile"
      by (simp_all add: missingIssue_def mixedIssue_def fun_eq_iff)
    with e show "issuesToFetch fName profile' = issuesToFetch fName profile"
      unfolding issuesToFetch_eq by (elim conjE) (erule ssubst, simp only:)
  qed
  from missing_issues [of fName profile] mixed_issues [of fName profile] A B C D
  show ?thesis by blast
qed


theorem issue_detection_witness:
  "hasMissing \<lparr>name = js ''qty'', dataType = T_mixed, missingValues = Fin 2,
      uniqueValues = Fin 3, nonNumericCount = Some (Fin 1)\<rparr> \<and>
   hasMixed \<lparr>name = js ''qty'', dataType = T_mixed, missingValues = Fin 2,
      uniqueValues = Fin 3, nonNumericCount = Some (Fin 1)\<rparr> \<and>
   issuesToFetch (js ''t.csv'')
     \<lparr>rowCount = Fin 6, columnCount = Fin 1,
      columns = [\<lparr>name = js ''qty'', dataType = T_mixed, missingValues = Fin 2,
         uniqueValues = Fin 3, nonNumericCount = Some (Fin 1)\<rparr>]\<rparr> =
     [\<lparr>fileName = js ''t.csv'', columnName = js ''qty'', issueType = Missing_values,
       details = \<lparr>missingCount = Some (Fin 2), nonNumericCountOf = None,
                  totalRows = Fin 6\<rparr>\<rparr>,
      \<lparr>fileName = js ''t.csv'', columnName = js ''qty'', issueType = Mixed_type,
       details = \<lparr>missingCount = None, nonNumericCountOf = Some (Fin 1),
                  totalRows = Fin 6\<rparr>\<rparr>]"
proof -
  let ?c = "\<lparr>name = js ''qty'', dataType = T_mixed, missingValues = Fin 2,
      uniqueValues = Fin 3, nonNumericCount = Some (Fin 1)\<rparr>"
  let ?p = "\<lparr>rowCount = Fin 6, columnCount = Fin 1, columns = []\<rparr>"
  have h: "hasMissing ?c \<and> hasMixed ?c"
    by (simp add: hasMissing_def hasMixed_def js_gt_def)
  with issue_detection [of "js ''t.csv''" ?p ?c "[]" "[]" ?p]
  have "issuesToFetch (js ''t.csv'') (?p\<lparr>columns := [?c]\<rparr>) =
      [missingIssue (js ''t.csv'') ?p ?c, mixedIssue (js ''t.csv'') ?p ?c]"
    by blast
  with h show ?thesis
    by (simp add: missingIssue_def mixedIssue_def)
qed

section \<open>Properties of the CSV parser\<close>

lemma split_not_Nil: "split sep s \<noteq> []"
  by (induction s) (auto split: list.splits)

lemma split_pieces: "piece \<in> set (split sep s) \<Longrightarrow> sep \<notin> set piece"
proof (induction s arbitrary: piece)
  case Nil
  then show ?case by simp
next
  case (Cons c s)
  show ?case
  proof (cases "c = sep")
    case True
    with Cons show ?thesis by auto
  next
    case False
    obtain w ws where w: "split sep s = w # ws"
      using split_not_Nil [of sep s] by (cases "split sep s") auto
    with False Cons.prems have "piece = c # w \<or> piece \<in> set ws" by auto
    with False w Cons.IH [of w] Cons.IH [of piece] show ?thesis by auto
  qed
qed

lemma split_length: "length (split sep s) = Suc (length (filter (\<lambda>c. c = sep) s))"
proof (induction s)
  case Nil
  show ?case by simp
next
  case (Cons c s)
  obtain w ws where "split sep s = w # ws"
    using split_not_Nil [of sep s] by (cases "split sep s") auto
  with Cons show ?case by auto
qed

lemma split_concat: "concat (split sep s) = filter (\<lambda>c. c \<noteq> sep) s"
proof (induction s)
  case Nil
  show ?case by simp
next
  case (Cons c s)
  obtain w ws where "split sep s = w # ws"
    using split_not_Nil [of sep s] by (cases "split sep s") auto
  with Cons show ?case by auto
qed

lemma filter_dropWhile_neg: "filter (\<lambda>x. \<not> P x) (dropWhile P s) = filter (\<lambda>x. \<not> P x) s"
  by (induction s) simp_all

lemma filter_stripSurrounding:
  "filter (\<lambda>c. c \<noteq> 0x22) (stripSurrounding s) = filter (\<lambda>c. c \<noteq> 0x22) s"
proof -
  have "filter (\<lambda>c. c \<noteq> 0x22) (stripSurrounding s) =
      rev (filter (\<lambda>c. \<not> c = 0x22) (dropWhile (\<lambda>c. c = 0x22) (rev (dropWhile (\<lambda>c. c = 0x22) s))))"
    by (simp add: stripSurrounding_def rev_filter)
  also have "\<dots> = rev (filter (\<lambda>c. \<not> c = 0x22) (rev (dropWhile (\<lambda>c. c = 0x22) s)))"
    by (simp only: filter_dropWhile_neg)
  also have "\<dots> = filter (\<lambda>c. \<not> c = 0x22) (dropWhile (\<lambda>c. c = 0x22) s)"
    by (simp add: rev_filter)
  also have "\<dots> = filter (\<lambda>c. \<not> c = 0x22) s"
    by (simp only: filter_dropWhile_neg)
  finally show ?thesis by simp
qed

lemma cleanCell_no_inner_quote:
  assumes "0x22 \<notin> set (stripSurrounding (trim cell))"
  shows "cleanCell cell = stripSurrounding (trim cell)"
proof -
  have "cleanCell cell = filter (\<lambda>c. c \<noteq> 0x22) (stripSurrounding (trim cell))"
    by (simp add: cleanCell_def removeQuotes_def filter_stripSurrounding)
  also from assms have "\<dots> = stripSurrounding (trim cell)"
    by (auto simp: filter_id_conv)
  finally show ?thesis .
qed

text \<open>
  C5, as the code has it. The text is split at newlines, the lines that are blank after
  trimming are dropped, the first line left is the header, and every line is split at
  commas (\<open>split\<close> cuts at every separator and nowhere else). A cell is trimmed and then
  loses every double-quote, the ones inside it too; for a cell with no quote inside, that
  is stripping the surrounding quotes.
\<close>

theorem csv_parsing:
  "(filter (\<lambda>line. trim line \<noteq> []) (split 0x0A content) = [] \<longrightarrow>
      parseCsv content = ([], [])) \<and>
   (filter (\<lambda>line. trim line \<noteq> []) (split 0x0A content) = first # rest \<longrightarrow>
      parseCsv content =
        (map cleanCell (split 0x2C first), map (\<lambda>line. map cleanCell (split 0x2C line)) rest)) \<and>
   cleanCell cell = filter (\<lambda>c. c \<noteq> 0x22) (trim cell) \<and>
   0x22 \<notin> set (cleanCell cell) \<and>
   (0x22 \<notin> set (stripSurrounding (trim cell)) \<longrightarrow>
      cleanCell cell = stripSurrounding (trim cell)) \<and>
   (\<forall>piece \<in> set (split sep s). sep \<notin> set piece) \<and>
   length (split sep s) = Suc (length (filter (\<lambda>c. c = sep) s)) \<and>
   concat (split sep s) = filter (\<lambda>c. c \<noteq> sep) s"
proof -
  have A: "filter (\<lambda>line. trim line \<noteq> []) (split 0x0A content) = [] \<longrightarrow>
      parseCsv content = ([], [])"
    by (simp add: parseCsv_def)
  have B: "filter (\<lambda>line. trim line \<noteq> []) (split 0x0A content) = first # rest \<longrightarrow>
      parseCsv content =
        (map cleanCell (split 0x2C first), map (\<lambda>line. map cleanCell (split 0x2C line)) rest)"
    by (simp add: parseCsv_def)
  have C: "cleanCell cell = filter (\<lambda>c. c \<noteq> 0x22) (trim cell)"
    by (simp add: cleanCell_def removeQuotes_def)
  have D: "0x22 \<notin> set (cleanCell cell)"
    by (simp add: cleanCell_def removeQuotes_def)
  from A B C D cleanCell_no_inner_quote [of cell] split_pieces [of _ sep s]
    split_length [of sep s] split_concat [of sep s]
  show ?thesis by blast
qed

theorem csv_parsing_witness:
  "filter (\<lambda>line. trim line \<noteq> []) (split 0x0A (js ''a,b'' @ [0x0A, 0x0A] @ js '' 1 ,'' @ [0x22] @ js ''x'' @ [0x22])) =
     [js ''a,b'', js '' 1 ,'' @ [0x22] @ js ''x'' @ [0x22]] \<and>
   parseCsv (js ''a,b'' @ [0x0A, 0x0A] @ js '' 1 ,'' @ [0x22] @ js ''x'' @ [0x22]) =
     ([js ''a'', js ''b''], [[js ''1'', js ''x'']])"
proof -
  let ?content = "js ''a,b'' @ [0x0A, 0x0A] @ js '' 1 ,'' @ [0x22] @ js ''x'' @ [0x22]"
  have l: "filter (\<lambda>line. trim line \<noteq> []) (split 0x0A ?content) =
      [js ''a,b'', js '' 1 ,'' @ [0x22] @ js ''x'' @ [0x22]]"
    by code_simp
  have h: "map cleanCell (split 0x2C (js ''a,b'')) = [js ''a'', js ''b'']"
    by code_simp
  have r: "map (\<lambda>line. map cleanCell (split 0x2C line)) [js '' 1 ,'' @ [0x22] @ js ''x'' @ [0x22]] =
      [[js ''1'', js ''x'']]"
    by code_simp
  from l csv_parsing [of ?content "js ''a,b''" "[js '' 1 ,'' @ [0x22] @ js ''x'' @ [0x22]]" "[]" 0 "[]"]
  have "parseCsv ?content =
      (map cleanCell (split 0x2C (js ''a,b'')),
       map (\<lambda>line. map cleanCell (split 0x2C line)) [js '' 1 ,'' @ [0x22] @ js ''x'' @ [0x22]])"
    by blast
  with l h r show ?thesis by simp
qed

text \<open>
  The claim as stated fails on a cell with a quote inside: the parsed value has lost it.
\<close>

theorem csv_inner_quote_counterexample:
  "parseCsv (js ''h'' @ [0x0A] @ js ''a'' @ [0x22] @ js ''b'') = ([js ''h''], [[js ''ab'']]) \<and>
   stripSurrounding (trim (js ''a'' @ [0x22] @ js ''b'')) = js ''a'' @ [0x22] @ js ''b'' \<and>
   js ''ab'' \<noteq> js ''a'' @ [0x22] @ js ''b''"
  by code_simp

section \<open>Properties of the staged selections\<close>

lemma map_of_assign: "map_of (assign k v ps) = (map_of ps)(k \<mapsto> v)"
  by (induction ps) (auto simp: fun_eq_iff)

lemma keys_assign:
  "map fst (assign k v ps) = (if k \<in> fst ` set ps then map fst ps else map fst ps @ [k])"
  by (induction ps) auto

lemma distinct_assign: "distinct (map fst ps) \<Longrightarrow> distinct (map fst (assign k v ps))"
  by (simp add: keys_assign)

lemma set_assign: "set (assign k v ps) \<subseteq> insert (k, v) (set ps)"
  by (induction ps) auto

lemma staged_keys:
  "staged sel \<Longrightarrow>
     distinct (map fst sel) \<and> (\<forall>(k, a) \<in> set sel. k = actionKey (action_file a) (column a))"
proof (induction rule: staged.induct)
  case staged_init
  show ?case by simp
next
  case (staged_select prev f c sug)
  have "set (handleActionSelect f c sug prev) \<subseteq>
      insert (actionKey f c, \<lparr>action_file = f, column = c, suggestion = sug\<rparr>) (set prev)"
    unfolding handleActionSelect_def by (rule set_assign)
  with staged_select.IH show ?case
    by (auto simp: handleActionSelect_def distinct_assign)
qed

lemma select_lookup:
  "map_of (handleActionSelect f c sug prev) (actionKey f c) =
     Some \<lparr>action_file = f, column = c, suggestion = sug\<rparr>"
  by (simp add: handleActionSelect_def map_of_assign)

lemma select_other_key:
  "k \<noteq> actionKey f c \<Longrightarrow> map_of (handleActionSelect f c sug prev) k = map_of prev k"
  by (simp add: handleActionSelect_def map_of_assign)

lemma js_dash: "js ''-'' = [0x2D]"
  by code_simp

lemma take_to_dash:
  "0x2D \<notin> set g \<Longrightarrow> takeWhile (\<lambda>x. x \<noteq> 0x2D) (g @ 0x2D # d) = g" for g d :: jsstring
  by (induction g) simp_all

lemma actionKey_inj_no_dash:
  assumes "actionKey f c = actionKey f' c'" and "0x2D \<notin> set f" and "0x2D \<notin> set f'"
  shows "f = f' \<and> c = c'"
proof -
  from assms(1) have e: "f @ 0x2D # c = f' @ 0x2D # c'"
    by (simp only: actionKey_def js_dash append_Cons append_Nil)
  have "f = takeWhile (\<lambda>x. x \<noteq> 0x2D) (f @ 0x2D # c)"
    by (rule take_to_dash [OF assms(2), symmetric])
  also have "\<dots> = takeWhile (\<lambda>x. x \<noteq> 0x2D) (f' @ 0x2D # c')"
    by (simp only: e)
  also have "\<dots> = f'"
    by (rule take_to_dash [OF assms(3)])
  finally have 1: "f = f'" .
  from e have "0x2D # c = 0x2D # c'"
    unfolding 1 by (rule same_append_eq [THEN iffD1])
  with 1 show ?thesis by (simp only: list.inject)
qed

text \<open>
  C7 at a failing input. The files \<open>x.csv\<close> and \<open>x.csv-y.csv\<close> with the columns
  \<open>y.csv-z\<close> and \<open>z\<close> are two distinct pairs with one key: selecting for the second
  pair replaces the selection staged for the first, which is lost.
\<close>

theorem select_key_collision:
  "(js ''x.csv'', js ''y.csv-z'') \<noteq> (js ''x.csv-y.csv'', js ''z'') \<and>
   actionKey (js ''x.csv'') (js ''y.csv-z'') = actionKey (js ''x.csv-y.csv'') (js ''z'') \<and>
   handleActionSelect (js ''x.csv-y.csv'') (js ''z'')
       \<lparr>action = FILL_MODE, description = js ''Fill'', parameters = None\<rparr>
     (handleActionSelect (js ''x.csv'') (js ''y.csv-z'')
       \<lparr>action = REMOVE_ROWS, description = js ''Remove'', parameters = None\<rparr> []) =
     [(js ''x.csv-y.csv-z'',
       \<lparr>action_file = js ''x.csv-y.csv'', column = js ''z'',
        suggestion = \<lparr>action = FILL_MODE, description = js ''Fill'', parameters = None\<rparr>\<rparr>)]"
  by code_simp

section \<open>Properties of the cleaning simulator\<close>

subsection \<open>Grouping by file\<close>

lemma map_of_pushOwn:
  "map_of (pushOwn groups a) =
     (map_of groups)(action_file a \<mapsto>
        (case map_of groups (action_file a) of None \<Rightarrow> [a] | Some as \<Rightarrow> as @ [a]))"
  by (simp add: pushOwn_def map_of_assign split: option.split)

lemma distinct_pushOwn:
  "distinct (map fst groups) \<Longrightarrow> distinct (map fst (pushOwn groups a))"
  by (simp add: pushOwn_def distinct_assign split: option.split)

lemma map_of_foldl_pushOwn:
  "map_of (foldl pushOwn groups acts) f =
     (case map_of groups f of
        None \<Rightarrow> (if filter (\<lambda>a. action_file a = f) acts = [] then None
                 else Some (filter (\<lambda>a. action_file a = f) acts))
      | Some as \<Rightarrow> Some (as @ filter (\<lambda>a. action_file a = f) acts))"
proof (induction acts arbitrary: groups)
  case Nil
  show ?case by (simp split: option.split)
next
  case (Cons a acts)
  show ?case
    by (simp add: Cons.IH map_of_pushOwn split: option.split)
qed

lemma distinct_foldl_pushOwn:
  "distinct (map fst groups) \<Longrightarrow> distinct (map fst (foldl pushOwn groups acts))"
  by (induction acts arbitrary: groups) (simp_all add: distinct_pushOwn)

lemma map_of_ownGroups:
  "map_of (ownGroups selected) f =
     (if actionsFor f selected = [] then None else Some (actionsFor f selected))"
  by (simp add: ownGroups_def actionsFor_def map_of_foldl_pushOwn)

lemma distinct_ownGroups: "distinct (map fst (ownGroups selected))"
  by (simp add: ownGroups_def distinct_foldl_pushOwn)

lemma foldl_pushAction_Inl:
  "foldl (\<lambda>acc a. case acc of Inl e \<Rightarrow> Inl e | Inr groups \<Rightarrow> pushAction groups a) (Inl e) acts =
     Inl e"
  by (induction acts) simp_all

lemma keyset_assign: "fst ` set (assign k v ps) = insert k (fst ` set ps)"
  by (induction ps) auto

lemma keys_pushOwn: "fst ` set (pushOwn groups a) = insert (action_file a) (fst ` set groups)"
  by (simp add: pushOwn_def keyset_assign split: option.split)

lemma pushAction_eq:
  "pushAction groups a =
     (if inheritedKey (action_file a) \<and> action_file a \<notin> fst ` set groups then Inl TypeError
      else Inr (pushOwn groups a))"
proof (cases "map_of groups (action_file a)")
  case None
  then have "action_file a \<notin> fst ` set groups" by (simp add: map_of_eq_None_iff)
  with None show ?thesis by (simp add: pushAction_def pushOwn_def)
next
  case (Some as)
  then have "action_file a \<in> fst ` set groups" by (force dest: map_of_SomeD)
  with Some show ?thesis by (simp add: pushAction_def pushOwn_def)
qed

lemma foldl_pushAction:
  "foldl (\<lambda>acc a. case acc of Inl e \<Rightarrow> Inl e | Inr groups \<Rightarrow> pushAction groups a)
       (Inr groups) acts =
     (if list_ex (\<lambda>a. inheritedKey (action_file a) \<and> action_file a \<notin> fst ` set groups) acts
      then Inl TypeError
      else Inr (foldl pushOwn groups acts))"
proof (induction acts arbitrary: groups)
  case Nil
  show ?case by simp
next
  case (Cons a acts)
  show ?case
  proof (cases "inheritedKey (action_file a) \<and> action_file a \<notin> fst ` set groups")
    case True
    then show ?thesis by (simp add: pushAction_eq foldl_pushAction_Inl)
  next
    case False
    have e: "(\<lambda>b. inheritedKey (action_file b) \<and> action_file b \<notin> fst ` set (pushOwn groups a)) =
        (\<lambda>b. inheritedKey (action_file b) \<and> action_file b \<notin> fst ` set groups)"
    proof (rule ext)
      fix b
      from False
      show "(inheritedKey (action_file b) \<and> action_file b \<notin> fst ` set (pushOwn groups a)) =
          (inheritedKey (action_file b) \<and> action_file b \<notin> fst ` set groups)"
        by (cases "action_file b = action_file a") (simp_all add: keys_pushOwn)
    qed
    have "foldl (\<lambda>acc a. case acc of Inl e \<Rightarrow> Inl e | Inr groups \<Rightarrow> pushAction groups a)
        (Inr groups) (a # acts) =
      foldl (\<lambda>acc a. case acc of Inl e \<Rightarrow> Inl e | Inr groups \<Rightarrow> pushAction groups a)
        (Inr (pushOwn groups a)) acts"
      by (simp add: pushAction_eq False)
    also note Cons.IH [of "pushOwn groups a", unfolded e]
    finally show ?thesis by (simp add: False)
  qed
qed

lemma actionsByFile_eq:
  "actionsByFile selected =
     (if list_ex (\<lambda>a. inheritedKey (action_file a)) (map snd selected) then Inl TypeError
      else Inr (ownGroups selected))"
  by (simp add: actionsByFile_def ownGroups_def foldl_pushAction)

lemma keys_ownGroups: "fst ` set (ownGroups selected) = action_file ` snd ` set selected"
proof -
  have "fst ` set (foldl pushOwn groups acts) = fst ` set groups \<union> action_file ` set acts"
    for groups acts
    by (induction acts arbitrary: groups) (auto simp: keys_pushOwn)
  from this [of "[]" "map snd selected"] show ?thesis by (simp add: ownGroups_def)
qed

lemma actionsByFile_own:
  assumes "actionsByFile selected = Inr groups" and "k \<in> fst ` set groups"
  shows "\<not> inheritedKey k"
proof -
  from assms(1) have n: "\<not> list_ex (\<lambda>a. inheritedKey (action_file a)) (map snd selected)"
    and g: "groups = ownGroups selected"
    by (simp_all add: actionsByFile_eq split: if_splits)
  from assms(2) g have "k \<in> action_file ` snd ` set selected" by (simp add: keys_ownGroups)
  with n show ?thesis by (auto simp: list_ex_iff)
qed

lemma handleApplyChanges_eq:
  "handleApplyChanges st selected =
     (if list_ex (\<lambda>a. inheritedKey (action_file a)) (map snd selected) then Inl TypeError
      else Inr (st\<lparr>profiles := newProfiles (profiles st) selected,
                   activePage := Data_Modeling\<rparr>))"
  by (simp add: handleApplyChanges_def actionsByFile_eq newProfiles_def)

subsection \<open>One file at a time\<close>

lemma foldl_groups:
  "distinct (map fst groups) \<Longrightarrow>
     foldl (\<lambda>np (fName, actions).
              case np fName of
                None \<Rightarrow> np
              | Some fileProfile \<Rightarrow> np(fName \<mapsto> processFile fileProfile actions)) np groups f =
     (case map_of groups f of
        None \<Rightarrow> np f
      | Some actions \<Rightarrow> map_option (\<lambda>fileProfile. processFile fileProfile actions) (np f))"
proof (induction groups arbitrary: np)
  case Nil
  show ?case by simp
next
  case (Cons g groups)
  obtain fName actions where g: "g = (fName, actions)" by (cases g)
  from Cons.prems g have d: "distinct (map fst groups)" and n: "map_of groups fName = None"
    by (auto simp: map_of_eq_None_iff)
  show ?case
    using n by (cases "np fName") (auto simp: g Cons.IH [OF d] split: option.split)
qed

lemma processFile_Nil: "processFile p [] = p"
  by (simp add: processFile_def js_gt_def)

lemma newProfiles_file:
  "newProfiles profs selected f =
     map_option (\<lambda>p. processFile (jsonProfile p) (actionsFor f selected)) (profs f)"
proof (cases "actionsFor f selected = []")
  case True
  then show ?thesis
    by (simp add: newProfiles_def processGroups_def foldl_groups [OF distinct_ownGroups] map_of_ownGroups
        jsonCopy_def processFile_Nil option.map_comp o_def)
next
  case False
  then show ?thesis
    by (simp add: newProfiles_def processGroups_def foldl_groups [OF distinct_ownGroups] map_of_ownGroups
        jsonCopy_def option.map_comp o_def)
qed


subsection \<open>Counts and the copy\<close>



lemma natOf_count: "natOf (count n) = n"
  by (simp add: natOf_def count_def)

lemma jsonNumber_count: "isCount x \<Longrightarrow> jsonNumber x = x"
  by (cases x) (simp_all add: isCount_def)

lemma jsonColumn_count: "countColumn c \<Longrightarrow> jsonColumn c = c"
  by (cases "nonNumericCount c")
    (simp_all add: countColumn_def jsonColumn_def jsonNumber_count)

lemma jsonProfile_count: "countProfile p \<Longrightarrow> jsonProfile p = p"
proof -
  assume c: "countProfile p"
  then have "map jsonColumn (columns p) = columns p"
    by (simp add: countProfile_def list_all_iff map_idI jsonColumn_count)
  with c show ?thesis
    by (simp add: jsonProfile_def countProfile_def jsonNumber_count)
qed

lemma jsonProfile_names: "map name (columns (jsonProfile p)) = map name (columns p)"
  by (simp add: jsonProfile_def jsonColumn_def)

subsection \<open>The selections of one file\<close>

lemma applyAction_eq: "applyAction a (col, mx) = (columnEffect a col, maxEffect a col mx)"
  by (simp add: applyAction_def columnEffect_def maxEffect_def Let_def
      split: cleaningActionType.split option.split)

lemma name_changeType: "name (changeType t col) = name col"
  by (simp add: changeType_def Let_def)

lemma name_columnEffect: "name (columnEffect a col) = name col"
  by (simp add: columnEffect_def applyAction_def Let_def fillMissing_def name_changeType
      split: cleaningActionType.split option.split)

lemma actionOnColumns_absent:
  "column a \<notin> name ` set cols \<Longrightarrow> actionOnColumns a cols mx = (cols, mx)"
  by (induction cols) auto

lemma actionOnColumns_names: "map name (fst (actionOnColumns a cols mx)) = map name cols"
  by (induction cols) (auto simp: applyAction_eq name_columnEffect split: prod.split)

lemma perColumn_Nil: "perColumn cols mx [] = (cols, mx)"
  by (simp add: perColumn_def)

lemma perColumn_Cons:
  "perColumn cols mx (a # actions) =
     perColumn (fst (actionOnColumns a cols mx)) (snd (actionOnColumns a cols mx)) actions"
  by (simp add: perColumn_def split: prod.split)

lemma perColumn_append:
  "perColumn cols mx (xs @ ys) =
     perColumn (fst (perColumn cols mx xs)) (snd (perColumn cols mx xs)) ys"
  by (induction xs arbitrary: cols mx) (simp_all add: perColumn_Nil perColumn_Cons)

lemma perColumn_names: "map name (fst (perColumn cols mx actions)) = map name cols"
  by (induction actions arbitrary: cols mx)
    (simp_all add: perColumn_Nil perColumn_Cons actionOnColumns_names)

lemma processFile_perColumn:
  "processFile p actions =
     (let cols = fst (perColumn (columns p) (Fin 0) actions);
          maxRowsToRemove = snd (perColumn (columns p) (Fin 0) actions)
      in if js_gt maxRowsToRemove (Fin 0)
         then p\<lparr>rowCount := floorZero (js_sub (rowCount p) maxRowsToRemove),
                columns := map (propagate actions maxRowsToRemove (rowCount p)) cols\<rparr>
         else p\<lparr>columns := cols\<rparr>)"
  by (simp add: processFile_def perColumn_def Let_def split: prod.split)

subsection \<open>Stale selections\<close>

lemma perColumn_stale:
  assumes "column a \<notin> name ` set cols"
  shows "perColumn cols mx (xs @ a # ys) = perColumn cols mx (xs @ ys)"
proof -
  have "name ` set (fst (perColumn cols mx xs)) = name ` set cols"
    using perColumn_names [of cols mx xs] by (metis set_map)
  with assms have "column a \<notin> name ` set (fst (perColumn cols mx xs))" by simp
  then show ?thesis
    by (simp add: perColumn_append [of cols mx xs] perColumn_Cons actionOnColumns_absent)
qed

lemma removeSelected_stale:
  "name col \<noteq> column a \<Longrightarrow>
     removeSelected (xs @ a # ys) col = removeSelected (xs @ ys) col"
  by (auto simp: removeSelected_def list_ex_iff)

lemma propagate_stale:
  "name col \<noteq> column a \<Longrightarrow>
     propagate (xs @ a # ys) mx n col = propagate (xs @ ys) mx n col"
  by (simp add: propagate_def removeSelected_stale)

lemma processFile_stale:
  assumes "column a \<notin> name ` set (columns p)"
  shows "processFile p (xs @ a # ys) = processFile p (xs @ ys)"
proof -
  let ?cols = "fst (perColumn (columns p) (Fin 0) (xs @ ys))"
  have "name ` set ?cols = name ` set (columns p)"
    using perColumn_names [of "columns p" "Fin 0" "xs @ ys"] by (metis set_map)
  with assms have "column a \<notin> name ` set ?cols" by simp
  then have "\<forall>col \<in> set ?cols. name col \<noteq> column a" by force
  then have "map (propagate (xs @ a # ys) mx n) ?cols = map (propagate (xs @ ys) mx n) ?cols"
    for mx n
    by (intro map_cong) (simp_all add: propagate_stale)
  then show ?thesis
    by (simp add: processFile_perColumn perColumn_stale [OF assms] Let_def)
qed

lemma stale_selection_ignored:
  "profs (action_file a) = None \<or>
   (\<exists>p. profs (action_file a) = Some p \<and> column a \<notin> name ` set (columns p)) \<Longrightarrow>
     newProfiles profs (before @ (k, a) # after) = newProfiles profs (before @ after)"
proof (rule ext)
  fix f
  assume stale: "profs (action_file a) = None \<or>
    (\<exists>p. profs (action_file a) = Some p \<and> column a \<notin> name ` set (columns p))"
  show "newProfiles profs (before @ (k, a) # after) f = newProfiles profs (before @ after) f"
  proof (cases "action_file a = f")
    case False
    then have "actionsFor f (before @ (k, a) # after) = actionsFor f (before @ after)"
      by (simp add: actionsFor_def)
    then show ?thesis by (simp add: newProfiles_file)
  next
    case True
    show ?thesis
    proof (cases "profs f")
      case None
      then show ?thesis by (simp add: newProfiles_file)
    next
      case (Some p)
      with stale True have "column a \<notin> name ` set (columns p)" by auto
      then have "column a \<notin> name ` set (columns (jsonProfile p))"
        using jsonProfile_names [of p] by (metis set_map)
      from processFile_stale [OF this, of "actionsFor f before" "actionsFor f after"]
      show ?thesis
        using True Some by (simp add: newProfiles_file actionsFor_def)
    qed
  qed
qed

text \<open>
  A selection whose file is not in the profile map, or whose column is not among the
  columns of its file's profile, is ignored by the handler, if the name of its file is no
  name of a member of \<open>Object.prototype\<close>: the handler does with it what it does without
  it.
\<close>

lemma stale_selection_handler:
  assumes "\<not> inheritedKey (action_file a)"
    and "profiles st (action_file a) = None \<or>
      (\<exists>p. profiles st (action_file a) = Some p \<and> column a \<notin> name ` set (columns p))"
  shows "handleApplyChanges st (before @ (k, a) # after) = handleApplyChanges st (before @ after)"
proof -
  from assms(2)
  have "newProfiles (profiles st) (before @ (k, a) # after) =
      newProfiles (profiles st) (before @ after)"
    by (rule stale_selection_ignored [where profs = "profiles st"])
  with assms(1) show ?thesis by (simp add: handleApplyChanges_eq)
qed

text \<open>
  C9. A stale selection is not always ignored. The selections are grouped in a plain
  object, by file name. A selection for the file \<open>constructor\<close>, of which the profile map
  knows nothing, makes \<^verbatim>\<open>actionsByFile[action.file]\<close> the inherited
  \<open>Object.prototype.constructor\<close>, so no array is made and the call of \<open>push\<close> raises a
  \<open>TypeError\<close>: the handler fails, where without this selection it replaces the profile
  map.
\<close>

theorem stale_selection_throws:
  "[js ''a.csv'' \<mapsto> \<lparr>rowCount = Fin 9, columnCount = Fin 1,
        columns = [\<lparr>name = js ''x'', dataType = T_number, missingValues = Fin 2,
                    uniqueValues = Fin 7, nonNumericCount = None\<rparr>],
        aiInsights = None\<rparr>] (js ''constructor'') = None \<and>
   handleApplyChanges
     \<lparr>profiles = [js ''a.csv'' \<mapsto> \<lparr>rowCount = Fin 9, columnCount = Fin 1,
        columns = [\<lparr>name = js ''x'', dataType = T_number, missingValues = Fin 2,
                    uniqueValues = Fin 7, nonNumericCount = None\<rparr>],
        aiInsights = None\<rparr>], activePage = Data_Cleaning\<rparr>
     [(js ''constructor-x'',
        \<lparr>action_file = js ''constructor'', column = js ''x'',
         suggestion = \<lparr>action = REMOVE_ROWS, description = js ''Remove'', parameters = None\<rparr>\<rparr>)] =
     Inl TypeError \<and>
   handleApplyChanges
     \<lparr>profiles = [js ''a.csv'' \<mapsto> \<lparr>rowCount = Fin 9, columnCount = Fin 1,
        columns = [\<lparr>name = js ''x'', dataType = T_number, missingValues = Fin 2,
                    uniqueValues = Fin 7, nonNumericCount = None\<rparr>],
        aiInsights = None\<rparr>], activePage = Data_Cleaning\<rparr> [] =
     Inr \<lparr>profiles = newProfiles [js ''a.csv'' \<mapsto> \<lparr>rowCount = Fin 9, columnCount = Fin 1,
        columns = [\<lparr>name = js ''x'', dataType = T_number, missingValues = Fin 2,
                    uniqueValues = Fin 7, nonNumericCount = None\<rparr>],
        aiInsights = None\<rparr>] [], activePage = Data_Modeling\<rparr>"
proof -
  have ne: "js ''a.csv'' \<noteq> js ''constructor''" by code_simp
  have inh: "inheritedKey (js ''constructor'')" by code_simp
  from ne inh show ?thesis by (simp add: handleApplyChanges_eq)
qed

subsection \<open>A batch with one selection per column\<close>

lemma actionOnColumns_distinct:
  "distinct (map name cols) \<Longrightarrow>
     actionOnColumns a cols mx =
       (map (\<lambda>c. if name c = column a then columnEffect a c else c) cols, readMax cols mx a)"
proof (induction cols)
  case Nil
  show ?case by (simp add: readMax_def)
next
  case (Cons c cs)
  show ?case
  proof (cases "name c = column a")
    case True
    with Cons.prems have "column a \<notin> name ` set cs" by simp
    then have "\<forall>c' \<in> set cs. name c' \<noteq> column a" by force
    then have "map (\<lambda>c. if name c = column a then columnEffect a c else c) cs = cs"
      by (simp add: map_idI)
    with True show ?thesis by (simp add: applyAction_eq readMax_def)
  next
    case False
    with Cons show ?thesis by (simp add: readMax_def)
  qed
qed

lemma find_unchanged:
  assumes "\<And>c. name (g c) = name c" and "\<And>c. name c = k \<Longrightarrow> g c = c"
  shows "find (\<lambda>c. name c = k) (map g cols) = find (\<lambda>c. name c = k) cols"
  using assms by (induction cols) auto

lemma readMax_other:
  assumes "column b \<noteq> column a"
  shows "readMax (map (\<lambda>c. if name c = column a then columnEffect a c else c) cols) m b =
     readMax cols m b"
proof -
  have "find (\<lambda>c. name c = column b)
      (map (\<lambda>c. if name c = column a then columnEffect a c else c) cols) =
      find (\<lambda>c. name c = column b) cols"
    using assms by (intro find_unchanged) (auto simp: name_columnEffect)
  then show ?thesis by (simp add: readMax_def)
qed

lemma foldl_readMax_other:
  "column a \<notin> column ` set acts \<Longrightarrow>
     foldl (readMax (map (\<lambda>c. if name c = column a then columnEffect a c else c) cols)) m acts =
     foldl (readMax cols) m acts"
proof (induction acts arbitrary: m)
  case Nil
  show ?case by simp
next
  case (Cons b acts)
  then have "column b \<noteq> column a" by auto
  with Cons show ?case by (simp add: readMax_other)
qed

lemma selectionFor_absent:
  "k \<notin> column ` set acts \<Longrightarrow> name col = k \<Longrightarrow> selectionFor acts col = None"
  by (force simp: selectionFor_def find_None_iff)

lemma afterActions_Cons:
  assumes "column a \<notin> column ` set acts"
  shows "afterActions acts (if name c = column a then columnEffect a c else c) =
     afterActions (a # acts) c"
proof (cases "name c = column a")
  case True
  with assms have "selectionFor acts (columnEffect a c) = None"
    by (intro selectionFor_absent [of "column a"]) (simp_all add: name_columnEffect)
  with True show ?thesis by (simp add: afterActions_def selectionFor_def)
next
  case False
  then show ?thesis by (auto simp: afterActions_def selectionFor_def)
qed

lemma perColumn_distinct:
  "distinct (map column acts) \<Longrightarrow> distinct (map name cols) \<Longrightarrow>
     perColumn cols mx acts = (map (afterActions acts) cols, foldl (readMax cols) mx acts)"
proof (induction acts arbitrary: cols mx)
  case Nil
  show ?case by (simp add: perColumn_Nil afterActions_def selectionFor_def)
next
  case (Cons a acts)
  let ?g = "\<lambda>c. if name c = column a then columnEffect a c else c"
  from Cons.prems have d: "distinct (map column acts)" and n: "column a \<notin> column ` set acts"
    by auto
  have "name (?g c) = name c" for c
    by (simp add: name_columnEffect)
  then have names: "map name (map ?g cols) = map name cols"
    unfolding map_map o_def by simp
  with Cons.prems(2) have dn: "distinct (map name (map ?g cols))"
    by (simp only:)
  have "perColumn cols mx (a # acts) = perColumn (map ?g cols) (readMax cols mx a) acts"
    by (simp add: perColumn_Cons actionOnColumns_distinct [OF Cons.prems(2)])
  also have "\<dots> = (map (afterActions acts) (map ?g cols),
      foldl (readMax (map ?g cols)) (readMax cols mx a) acts)"
    by (rule Cons.IH [OF d dn])
  also have "map (afterActions acts) (map ?g cols) = map (afterActions (a # acts)) cols"
    by (simp add: afterActions_Cons [OF n])
  also have "foldl (readMax (map ?g cols)) (readMax cols mx a) acts =
      foldl (readMax cols) mx (a # acts)"
    by (simp add: foldl_readMax_other [OF n])
  finally show ?case .
qed










subsection \<open>Arithmetic on counts\<close>









text \<open>
  Landmarks of the rounding: small integers and powers of two are exact; \<open>0.1\<close> is the
  double \<open>3602879701896397 \<times> 2\<^sup>-\<^sup>5\<^sup>5\<close>; \<open>3 * 0.1\<close> is \<open>0.30000000000000004\<close>, above
  three tenths; and beyond \<open>2\<^sup>5\<^sup>3\<close> an odd integer goes to the neighbour with the even
  significand.
\<close>

lemma fl_landmarks:
  "fl 3 = 3"
  "fl (1 / 2) = 1 / 2"
  "fl (1 / 10) = 3602879701896397 / 36028797018963968"
  "fl (3 * fl (1 / 10)) = 5404319552844596 / 18014398509481984"
  "3 / 10 < fl (3 * fl (1 / 10))"
  "fl 9007199254740993 = 9007199254740992"
  "fl 9007199254740995 = 9007199254740996"
  by code_simp+


text \<open>
  Outside the data model, where a column has more missing values than the file has rows:
  with a row count of 0 and rows to remove the quotient is infinite, and a column
  without missing values ends with \<open>NaN\<close>, one with missing values at 0.
\<close>

lemma propagate_no_rows:
  assumes "\<not> removeSelected acts col" and "0 < R"
  shows "missingValues col = count 0 \<Longrightarrow>
       missingValues (propagate acts (count R) (count 0) col) = NaN"
    and "missingValues col = count m \<Longrightarrow> 0 < m \<Longrightarrow>
       missingValues (propagate acts (count R) (count 0) col) = Fin 0"
  using assms
  by (simp_all add: propagate_def Let_def js_div_def js_mul_def js_sub_def js_lt_def
      floorZero_def count_def signed_inf_def)

subsection \<open>The columns after their own selection\<close>







lemma staged_columns:
  assumes "staged selected"
  shows "distinct (map column (actionsFor f selected))"
proof -
  let ?key = "\<lambda>a. actionKey (action_file a) (column a)"
  from staged_keys [OF assms] have d: "distinct (map fst selected)"
    and k: "\<forall>(k, a) \<in> set selected. k = ?key a" by blast+
  from k have "map fst selected = map ?key (map snd selected)" by auto
  with d have "distinct (map ?key (map snd selected))" by simp
  then have "distinct (map ?key (actionsFor f selected))"
    unfolding actionsFor_def by (rule distinct_map_filter)
  moreover have "map ?key (actionsFor f selected) =
      map (actionKey f) (map column (actionsFor f selected))"
    by (simp add: actionsFor_def)
  ultimately have "distinct (map (actionKey f) (map column (actionsFor f selected)))"
    by simp
  then show ?thesis by (simp only: distinct_map)
qed


subsection \<open>Row removal\<close>








subsection \<open>Type change\<close>

lemma selectionFor_member:
  "distinct (map column acts) \<Longrightarrow> a \<in> set acts \<Longrightarrow> column a = name c \<Longrightarrow>
     selectionFor acts c = Some a"
proof (induction acts)
  case Nil
  then show ?case by simp
next
  case (Cons b acts)
  show ?case
  proof (cases "b = a")
    case True
    with Cons.prems show ?thesis by (simp add: selectionFor_def)
  next
    case False
    with Cons.prems have "a \<in> set acts" by simp
    then have "column a \<in> column ` set acts" by (rule imageI)
    with Cons.prems have "column b \<noteq> name c" by force
    with Cons \<open>a \<in> set acts\<close> show ?thesis by (simp add: selectionFor_def)
  qed
qed

lemma dataType_propagate: "dataType (propagate acts mx n col) = dataType col"
  by (simp add: propagate_def Let_def)

lemma nonNumericCount_propagate:
  "nonNumericCount (propagate acts mx n col) = nonNumericCount col"
  by (simp add: propagate_def Let_def)

lemma processFile_column:
  assumes "distinct (map column acts)" and "distinct (map name (columns p))"
    and "i < length (columns p)"
  shows "dataType (columns (processFile p acts) ! i) =
       dataType (afterActions acts (columns p ! i)) \<and>
     nonNumericCount (columns (processFile p acts) ! i) =
       nonNumericCount (afterActions acts (columns p ! i))"
  using assms(3)
  by (simp add: processFile_perColumn perColumn_distinct [OF assms(1,2)] Let_def
      dataType_propagate nonNumericCount_propagate)

lemma columnEffect_changeType:
  "action (suggestion a) = CHANGE_TYPE \<Longrightarrow> parameters (suggestion a) = Some ps \<Longrightarrow>
     targetType ps = Some t \<Longrightarrow> columnEffect a col = changeType t col"
  by (simp add: columnEffect_def applyAction_def Let_def)

text \<open>
  C2, as the code has it. A \<open>CHANGE_TYPE\<close> selection with a target type sets the
  \<open>dataType\<close> of its column to the target, in the step of the selection and in the
  profile computed by the batch. With the target \<open>number\<close> and a non-zero
  \<open>nonNumericCount\<close>, that count is added to \<open>missingValues\<close> and becomes 0. Otherwise,
  and so for every change to \<open>string\<close>, \<open>missingValues\<close> and \<open>nonNumericCount\<close> are left
  as they were.
\<close>

theorem change_type_effect:
  assumes "action (suggestion a) = CHANGE_TYPE" and "parameters (suggestion a) = Some ps"
    and "targetType ps = Some t"
  shows "dataType (fst (applyAction a (col, mx))) = dtypeOf t \<and>
     snd (applyAction a (col, mx)) = mx \<and>
     (t = To_number \<and> truthyOpt (nonNumericCount col) \<longrightarrow>
        missingValues (fst (applyAction a (col, mx))) =
          js_add (missingValues col) (the (nonNumericCount col)) \<and>
        nonNumericCount (fst (applyAction a (col, mx))) = Some (Fin 0)) \<and>
     (t = To_string \<or> \<not> truthyOpt (nonNumericCount col) \<longrightarrow>
        missingValues (fst (applyAction a (col, mx))) = missingValues col \<and>
        nonNumericCount (fst (applyAction a (col, mx))) = nonNumericCount col) \<and>
     (staged selected \<and> (k, a) \<in> set selected \<and> profs (action_file a) = Some p \<and>
      distinct (map name (columns p)) \<and> i < length (columns p) \<and>
      name (columns p ! i) = column a \<longrightarrow>
        (\<exists>p'. newProfiles profs selected (action_file a) = Some p' \<and>
           dataType (columns p' ! i) = dtypeOf t \<and>
           (t = To_string \<and> countProfile p \<longrightarrow>
              nonNumericCount (columns p' ! i) = nonNumericCount (columns p ! i))))"
proof -
  have ap: "applyAction a (col, mx) = (changeType t col, mx)" for col mx
    using assms by (simp add: applyAction_def Let_def)
  have A: "dataType (changeType t col) = dtypeOf t" for col
    by (simp add: changeType_def Let_def)
  have B: "t = To_number \<and> truthyOpt (nonNumericCount col) \<longrightarrow>
        missingValues (changeType t col) =
          js_add (missingValues col) (the (nonNumericCount col)) \<and>
        nonNumericCount (changeType t col) = Some (Fin 0)"
    by (simp add: changeType_def Let_def)
  have C: "t = To_string \<or> \<not> truthyOpt (nonNumericCount col) \<longrightarrow>
        missingValues (changeType t col) = missingValues col \<and>
        nonNumericCount (changeType t col) = nonNumericCount col" for col
    by (auto simp: changeType_def Let_def)
  have D: "\<exists>p'. newProfiles profs selected (action_file a) = Some p' \<and>
           dataType (columns p' ! i) = dtypeOf t \<and>
           (t = To_string \<and> countProfile p \<longrightarrow>
              nonNumericCount (columns p' ! i) = nonNumericCount (columns p ! i))"
    if st: "staged selected" and mem: "(k, a) \<in> set selected"
      and pf: "profs (action_file a) = Some p" and dn: "distinct (map name (columns p))"
      and i: "i < length (columns p)" and nm: "name (columns p ! i) = column a"
  proof -
    let ?f = "action_file a"
    let ?acts = "actionsFor ?f selected"
    let ?q = "jsonProfile p"
    note d = staged_columns [OF st, of ?f]
    from mem have "a \<in> set ?acts" by (force simp: actionsFor_def)
    have names: "map name (columns ?q) = map name (columns p)"
      by (rule jsonProfile_names)
    then have len: "length (columns ?q) = length (columns p)"
      by (metis length_map)
    from names i have nq: "name (columns ?q ! i) = name (columns p ! i)"
      by (metis len nth_map)
    from dn names have dq: "distinct (map name (columns ?q))" by simp
    from i len have iq: "i < length (columns ?q)" by simp
    have "selectionFor ?acts (columns ?q ! i) = Some a"
      using \<open>a \<in> set ?acts\<close> nq nm by (intro selectionFor_member [OF d]) simp_all
    then have after: "afterActions ?acts (columns ?q ! i) = changeType t (columns ?q ! i)"
      using assms by (simp add: afterActions_def columnEffect_changeType)
    note pc = processFile_column [OF d dq iq]
    have new: "newProfiles profs selected ?f = Some (processFile ?q ?acts)"
      by (simp add: newProfiles_file pf)
    have dt: "dataType (columns (processFile ?q ?acts) ! i) = dtypeOf t"
      using pc after A by simp
    have nn: "nonNumericCount (columns (processFile ?q ?acts) ! i) =
        nonNumericCount (columns p ! i)" if "t = To_string" "countProfile p"
      using pc after C [of "columns ?q ! i"] that by (simp add: jsonProfile_count)
    from new dt nn show ?thesis by blast
  qed
  from A B C D show ?thesis unfolding ap fst_conv snd_conv by blast
qed

text \<open>
  The example of the specification: a mixed column with 5 non-numeric and 2 missing
  values, changed to \<open>number\<close>.
\<close>

theorem change_type_effect_witness:
  "staged (handleActionSelect (js ''t.csv'') (js ''amount'')
        \<lparr>action = CHANGE_TYPE, description = js ''Convert'',
         parameters = Some \<lparr>fill_value = None, targetType = Some To_number\<rparr>\<rparr> []) \<and>
   (js ''t.csv-amount'', \<lparr>action_file = js ''t.csv'', column = js ''amount'',
        suggestion = \<lparr>action = CHANGE_TYPE, description = js ''Convert'',
          parameters = Some \<lparr>fill_value = None, targetType = Some To_number\<rparr>\<rparr>\<rparr>) \<in> set (handleActionSelect (js ''t.csv'') (js ''amount'')
        \<lparr>action = CHANGE_TYPE, description = js ''Convert'',
         parameters = Some \<lparr>fill_value = None, targetType = Some To_number\<rparr>\<rparr> []) \<and>
   countProfile \<lparr>rowCount = Fin 50, columnCount = Fin 1,
        columns = [\<lparr>name = js ''amount'', dataType = T_mixed, missingValues = Fin 2,
                    uniqueValues = Fin 9, nonNumericCount = Some (Fin 5)\<rparr>],
        aiInsights = None\<rparr> \<and>
   applyAction \<lparr>action_file = js ''t.csv'', column = js ''amount'',
        suggestion = \<lparr>action = CHANGE_TYPE, description = js ''Convert'',
          parameters = Some \<lparr>fill_value = None, targetType = Some To_number\<rparr>\<rparr>\<rparr> (\<lparr>name = js ''amount'', dataType = T_mixed, missingValues = Fin 2,
        uniqueValues = Fin 9, nonNumericCount = Some (Fin 5)\<rparr>, Fin 0) =
     (\<lparr>name = js ''amount'', dataType = T_number, missingValues = Fin 7,
       uniqueValues = Fin 9, nonNumericCount = Some (Fin 0)\<rparr>, Fin 0) \<and>
   (\<exists>p'. newProfiles [js ''t.csv'' \<mapsto> \<lparr>rowCount = Fin 50, columnCount = Fin 1,
        columns = [\<lparr>name = js ''amount'', dataType = T_mixed, missingValues = Fin 2,
                    uniqueValues = Fin 9, nonNumericCount = Some (Fin 5)\<rparr>],
        aiInsights = None\<rparr>] (handleActionSelect (js ''t.csv'') (js ''amount'')
        \<lparr>action = CHANGE_TYPE, description = js ''Convert'',
         parameters = Some \<lparr>fill_value = None, targetType = Some To_number\<rparr>\<rparr> []) (js ''t.csv'') = Some p' \<and>
      dataType (columns p' ! 0) = T_number)"
proof -
  let ?a = "\<lparr>action_file = js ''t.csv'', column = js ''amount'',
        suggestion = \<lparr>action = CHANGE_TYPE, description = js ''Convert'',
          parameters = Some \<lparr>fill_value = None, targetType = Some To_number\<rparr>\<rparr>\<rparr>"
  let ?sel = "(handleActionSelect (js ''t.csv'') (js ''amount'')
        \<lparr>action = CHANGE_TYPE, description = js ''Convert'',
         parameters = Some \<lparr>fill_value = None, targetType = Some To_number\<rparr>\<rparr> [])"
  let ?p = "\<lparr>rowCount = Fin 50, columnCount = Fin 1,
        columns = [\<lparr>name = js ''amount'', dataType = T_mixed, missingValues = Fin 2,
                    uniqueValues = Fin 9, nonNumericCount = Some (Fin 5)\<rparr>],
        aiInsights = None\<rparr>"
  have h1: "staged ?sel" by (intro staged_select staged_init)
  have h2: "(js ''t.csv-amount'', ?a) \<in> set ?sel" by code_simp
  have h3: "countProfile ?p" by code_simp
  have e: "applyAction ?a (\<lparr>name = js ''amount'', dataType = T_mixed, missingValues = Fin 2,
        uniqueValues = Fin 9, nonNumericCount = Some (Fin 5)\<rparr>, Fin 0) =
     (\<lparr>name = js ''amount'', dataType = T_number, missingValues = Fin 7,
       uniqueValues = Fin 9, nonNumericCount = Some (Fin 0)\<rparr>, Fin 0)"
    by code_simp
  have g: "action (suggestion ?a) = CHANGE_TYPE"
    "parameters (suggestion ?a) = Some \<lparr>fill_value = None, targetType = Some To_number\<rparr>"
    "targetType \<lparr>fill_value = None, targetType = Some To_number\<rparr> = Some To_number"
    by simp_all
  have pre: "staged ?sel \<and> (js ''t.csv-amount'', ?a) \<in> set ?sel \<and>
      [js ''t.csv'' \<mapsto> ?p] (action_file ?a) = Some ?p \<and>
      distinct (map name (columns ?p)) \<and> 0 < length (columns ?p) \<and>
      name (columns ?p ! 0) = column ?a"
    using h1 h2 by simp
  from change_type_effect [OF g, where selected = ?sel and k = "js ''t.csv-amount''"
      and profs = "[js ''t.csv'' \<mapsto> ?p]" and p = ?p and i = 0] pre
  have "\<exists>p'. newProfiles [js ''t.csv'' \<mapsto> ?p] ?sel (action_file ?a) = Some p' \<and>
      dataType (columns p' ! 0) = dtypeOf To_number"
    by blast
  then have "\<exists>p'. newProfiles [js ''t.csv'' \<mapsto> ?p] ?sel (js ''t.csv'') = Some p' \<and>
      dataType (columns p' ! 0) = T_number"
    by (simp add: dtypeOf_def)
  with h1 h2 h3 e show ?thesis by blast
qed

text \<open>
  The claim as stated fails for the target \<open>string\<close>: the same column changed to \<open>string\<close>
  is no longer \<open>mixed\<close> and keeps its \<open>nonNumericCount\<close> of 5.
\<close>

theorem change_type_string_counterexample:
  "newProfiles [js ''t.csv'' \<mapsto> \<lparr>rowCount = Fin 50, columnCount = Fin 1,
        columns = [\<lparr>name = js ''amount'', dataType = T_mixed, missingValues = Fin 2,
                    uniqueValues = Fin 9, nonNumericCount = Some (Fin 5)\<rparr>],
        aiInsights = None\<rparr>] (handleActionSelect (js ''t.csv'') (js ''amount'')
        \<lparr>action = CHANGE_TYPE, description = js ''Convert'',
         parameters = Some \<lparr>fill_value = None, targetType = Some To_string\<rparr>\<rparr> []) (js ''t.csv'') =
     Some \<lparr>rowCount = Fin 50, columnCount = Fin 1,
        columns = [\<lparr>name = js ''amount'', dataType = T_string, missingValues = Fin 2,
                    uniqueValues = Fin 9, nonNumericCount = Some (Fin 5)\<rparr>],
        aiInsights = None\<rparr>"
  unfolding newProfiles_file by code_simp

section \<open>Properties of the handler on the store\<close>

subsection \<open>The objects of the current profiles are not written to\<close>


lemma untouched_self: "untouched (length (colObjs s)) (length (profObjs s)) s s"
  by (simp add: untouched_def)

lemma copyProfile_untouched:
  assumes "untouched C P s0 s" and "C \<le> length (colObjs s)" and "P \<le> length (profObjs s)"
    and "copyProfile s r = (s1, r')"
  shows "untouched C P s0 s1 \<and> C \<le> length (colObjs s1) \<and> P \<le> length (profObjs s1) \<and>
     P \<le> r' \<and> r' < length (profObjs s1) \<and> length (profObjs s) \<le> length (profObjs s1)"
proof -
  let ?new = "map (\<lambda>c. jsonColumn (colObjs s ! c)) (o_columns (profObjs s ! r))"
  from assms(4) have s1: "colObjs s1 = colObjs s @ ?new"
    and p1: "profObjs s1 = profObjs s @
        [\<lparr>o_rowCount = jsonNumber (o_rowCount (profObjs s ! r)),
          o_columnCount = jsonNumber (o_columnCount (profObjs s ! r)),
          o_columns = [length (colObjs s) ..< length (colObjs s) + length ?new],
          o_aiInsights = o_aiInsights (profObjs s ! r)\<rparr>]"
    and r': "r' = length (profObjs s)"
    by (auto simp: copyProfile_def Let_def)
  have third: "\<forall>c \<in> set (o_columns (profObjs s1 ! q)). C \<le> c"
    if "P \<le> q" "q < length (profObjs s1)" for q
  proof (cases "q < length (profObjs s)")
    case True
    with assms(1) that(1) show ?thesis
      by (simp add: p1 nth_append untouched_def)
  next
    case False
    with that(2) have "q = length (profObjs s)" by (simp add: p1)
    with assms(2) show ?thesis by (simp add: p1 nth_append)
  qed
  have "take C (colObjs s1) = take C (colObjs s0)" "take P (profObjs s1) = take P (profObjs s0)"
    using assms(1,2,3) by (simp_all add: untouched_def s1 p1)
  with third have "untouched C P s0 s1" unfolding untouched_def by blast
  moreover have "C \<le> length (colObjs s1)" "P \<le> length (profObjs s1)" "P \<le> r'"
    "r' < length (profObjs s1)" "length (profObjs s) \<le> length (profObjs s1)"
    using assms(2,3) by (simp_all add: s1 p1 r')
  ultimately show ?thesis by blast
qed

lemma copyMap_untouched:
  "untouched C P s0 s \<Longrightarrow> C \<le> length (colObjs s) \<Longrightarrow> P \<le> length (profObjs s) \<Longrightarrow>
   copyMap s pmap = (s', pmap') \<Longrightarrow>
     untouched C P s0 s' \<and> length (profObjs s) \<le> length (profObjs s') \<and>
     (\<forall>r \<in> snd ` set pmap'. P \<le> r \<and> r < length (profObjs s'))"
proof (induction pmap arbitrary: s s' pmap')
  case Nil
  then show ?case by simp
next
  case (Cons e pmap)
  obtain f r where e: "e = (f, r)" by (cases e)
  obtain s1 r' where c1: "copyProfile s r = (s1, r')" by (cases "copyProfile s r")
  obtain s2 rest' where c2: "copyMap s1 pmap = (s2, rest')" by (cases "copyMap s1 pmap")
  from Cons.prems(4) e c1 c2 have s': "s' = s2" and pm: "pmap' = (f, r') # rest'"
    by simp_all
  note p1 = copyProfile_untouched [OF Cons.prems(1,2,3) c1]
  from p1 have u1: "untouched C P s0 s1" and l1: "C \<le> length (colObjs s1)"
    and l2: "P \<le> length (profObjs s1)" by simp_all
  note p2 = Cons.IH [OF u1 l1 l2 c2]
  from p1 p2 show ?case by (auto simp: s' pm)
qed

lemma actionOnObjects_untouched:
  assumes "untouched C P s0 s" and "\<forall>c \<in> set colRefs. C \<le> c"
  shows "untouched C P s0 (fst (actionOnObjects a colRefs (s, mx))) \<and>
     profObjs (fst (actionOnObjects a colRefs (s, mx))) = profObjs s"
proof (cases "find (\<lambda>c. name (colObjs s ! c) = column a) colRefs")
  case None
  with assms(1) show ?thesis by (simp add: actionOnObjects_def)
next
  case (Some c)
  then have "c \<in> set colRefs" by (auto simp: find_Some_iff)
  with assms(2) have "C \<le> c" by simp
  with assms(1) Some show ?thesis
    by (simp add: actionOnObjects_def untouched_def split: prod.split)
qed

lemma foldl_actionOnObjects_untouched:
  "untouched C P s0 s \<Longrightarrow> \<forall>c \<in> set colRefs. C \<le> c \<Longrightarrow>
     untouched C P s0 (fst (foldl (\<lambda>st a. actionOnObjects a colRefs st) (s, mx) actions)) \<and>
     profObjs (fst (foldl (\<lambda>st a. actionOnObjects a colRefs st) (s, mx) actions)) = profObjs s"
proof (induction actions arbitrary: s mx)
  case Nil
  then show ?case by simp
next
  case (Cons a actions)
  obtain s1 mx1 where st: "actionOnObjects a colRefs (s, mx) = (s1, mx1)"
    by (cases "actionOnObjects a colRefs (s, mx)")
  from actionOnObjects_untouched [OF Cons.prems, of a mx] st
  have u1: "untouched C P s0 s1" and p1: "profObjs s1 = profObjs s" by simp_all
  from Cons.IH [OF u1 Cons.prems(2), of mx1] p1 st show ?case by simp
qed

lemma foldl_propagateObject_untouched:
  "untouched C P s0 s \<Longrightarrow> \<forall>c \<in> set colRefs. C \<le> c \<Longrightarrow>
     untouched C P s0 (foldl (propagateObject actions mx orig) s colRefs) \<and>
     profObjs (foldl (propagateObject actions mx orig) s colRefs) = profObjs s"
proof (induction colRefs arbitrary: s)
  case Nil
  then show ?case by simp
next
  case (Cons c colRefs)
  from Cons.prems have "untouched C P s0 (propagateObject actions mx orig s c)"
    and "profObjs (propagateObject actions mx orig s c) = profObjs s"
    by (simp_all add: propagateObject_def untouched_def)
  with Cons.IH [of "propagateObject actions mx orig s c"] Cons.prems(2) show ?case by simp
qed

lemma processObject_untouched:
  assumes u: "untouched C P s0 s" and r: "P \<le> r" "r < length (profObjs s)"
  shows "untouched C P s0 (processObject s r actions) \<and>
     length (profObjs (processObject s r actions)) = length (profObjs s)"
proof -
  let ?refs = "o_columns (profObjs s ! r)"
  obtain s1 mx where st: "foldl (\<lambda>st a. actionOnObjects a ?refs st) (s, Fin 0) actions = (s1, mx)"
    by (cases "foldl (\<lambda>st a. actionOnObjects a ?refs st) (s, Fin 0) actions")
  from u r have refs: "\<forall>c \<in> set ?refs. C \<le> c" by (simp add: untouched_def)
  from foldl_actionOnObjects_untouched [OF u refs, of "Fin 0" actions] st
  have u1: "untouched C P s0 s1" and p1: "profObjs s1 = profObjs s" by simp_all
  define s2 where "s2 = s1\<lparr>profObjs := (profObjs s1)
      [r := (profObjs s1 ! r)\<lparr>o_rowCount := floorZero (js_sub (o_rowCount (profObjs s1 ! r)) mx)\<rparr>]\<rparr>"
  have pr: "processObject s r actions =
      (if js_gt mx (Fin 0)
       then foldl (propagateObject actions mx (o_rowCount (profObjs s1 ! r))) s2 ?refs
       else s1)"
    by (simp add: processObject_def st s2_def Let_def)
  have c2: "colObjs s2 = colObjs s1" and l2: "length (profObjs s2) = length (profObjs s)"
    by (simp_all add: s2_def p1)
  have o2: "o_columns (profObjs s2 ! q) = o_columns (profObjs s1 ! q)" for q
    using r(2) p1 by (cases "q = r") (simp_all add: s2_def)
  have t2: "take P (profObjs s2) = take P (profObjs s1)"
    using r(1) by (simp add: s2_def)
  from u1 have u2: "untouched C P s0 s2"
    unfolding untouched_def c2 o2 t2 l2 p1 .
  from foldl_propagateObject_untouched [OF u2 refs] l2
  have "untouched C P s0 (foldl (propagateObject actions mx orig) s2 ?refs) \<and>
      length (profObjs (foldl (propagateObject actions mx orig) s2 ?refs)) = length (profObjs s)"
    for orig
    by simp
  with u1 p1 show ?thesis by (simp add: pr)
qed



lemma groupsOnStore_untouched:
  "untouched C P s0 s \<Longrightarrow> \<forall>r \<in> snd ` set newMap. P \<le> r \<and> r < length (profObjs s) \<Longrightarrow>
     untouched C P s0 (groupsOnStore newMap s groups)"
proof (induction groups arbitrary: s)
  case Nil
  then show ?case by (simp add: groupsOnStore_def)
next
  case (Cons g groups)
  obtain fName actions where g: "g = (fName, actions)" by (cases g)
  show ?case
  proof (cases "map_of newMap fName")
    case None
    with Cons g show ?thesis by (simp add: groupsOnStore_def)
  next
    case (Some r)
    then have "r \<in> snd ` set newMap" by (force dest: map_of_SomeD)
    with Cons.prems(2) have r: "P \<le> r" "r < length (profObjs s)" by auto
    note p = processObject_untouched [OF Cons.prems(1) r, of actions]
    with Cons.prems(2) have "\<forall>q \<in> snd ` set newMap.
        P \<le> q \<and> q < length (profObjs (processObject s r actions))" by simp
    from Cons.IH [OF _ this] p Some g show ?thesis by (simp add: groupsOnStore_def)
  qed
qed

lemma applyOnStore_untouched:
  assumes "applyOnStore s pmap selected = (s', res)"
  shows "take (length (colObjs s)) (colObjs s') = colObjs s \<and>
     take (length (profObjs s)) (profObjs s') = profObjs s"
proof -
  obtain s1 newMap where c: "copyMap s pmap = (s1, newMap)" by (cases "copyMap s pmap")
  note cm = copyMap_untouched [OF untouched_self _ _ c, simplified]
  from cm have u1: "untouched (length (colObjs s)) (length (profObjs s)) s s1"
    and n: "\<forall>r \<in> snd ` set newMap. length (profObjs s) \<le> r \<and> r < length (profObjs s1)"
    by simp_all
  have "untouched (length (colObjs s)) (length (profObjs s)) s s'"
  proof (cases "actionsByFile selected")
    case (Inl e)
    with assms c u1 show ?thesis by (simp add: applyOnStore_def)
  next
    case (Inr groups)
    with assms c have "s' = groupsOnStore newMap s1 groups" by (simp add: applyOnStore_def)
    with groupsOnStore_untouched [OF u1 n] show ?thesis by simp
  qed
  then show ?thesis by (simp add: untouched_def)
qed


subsection \<open>The store and the values\<close>

lemma actionOnObjects_columns:
  "distinct refs \<Longrightarrow> \<forall>c \<in> set refs. c < length (colObjs s) \<Longrightarrow>
     map (\<lambda>c. colObjs (fst (actionOnObjects a refs (s, mx))) ! c) refs =
       fst (actionOnColumns a (map (\<lambda>c. colObjs s ! c) refs) mx) \<and>
     snd (actionOnObjects a refs (s, mx)) =
       snd (actionOnColumns a (map (\<lambda>c. colObjs s ! c) refs) mx) \<and>
     profObjs (fst (actionOnObjects a refs (s, mx))) = profObjs s \<and>
     length (colObjs (fst (actionOnObjects a refs (s, mx)))) = length (colObjs s) \<and>
     (\<forall>c. c \<notin> set refs \<longrightarrow> colObjs (fst (actionOnObjects a refs (s, mx))) ! c = colObjs s ! c)"
proof (induction refs)
  case Nil
  show ?case by (simp add: actionOnObjects_def)
next
  case (Cons c refs)
  from Cons.prems have d: "distinct refs" and n: "c \<notin> set refs"
    and r: "\<forall>c \<in> set refs. c < length (colObjs s)" and l: "c < length (colObjs s)"
    by simp_all
  show ?case
  proof (cases "name (colObjs s ! c) = column a")
    case True
    obtain col' mx' where ap: "applyAction a (colObjs s ! c, mx) = (col', mx')"
      by (cases "applyAction a (colObjs s ! c, mx)")
    have st: "actionOnObjects a (c # refs) (s, mx) = (s\<lparr>colObjs := (colObjs s)[c := col']\<rparr>, mx')"
      using True ap by (simp add: actionOnObjects_def)
    have "(colObjs s)[c := col'] ! q = colObjs s ! q" if "q \<in> set refs" for q
    proof -
      from that n have "c \<noteq> q" by auto
      then show ?thesis by simp
    qed
    then have "map (\<lambda>q. (colObjs s)[c := col'] ! q) refs = map (\<lambda>q. colObjs s ! q) refs"
      by (intro map_cong) simp_all
    moreover from l have "(colObjs s)[c := col'] ! c = col'" by simp
    ultimately show ?thesis
      using True ap n by (auto simp: st)
  next
    case False
    then have st: "actionOnObjects a (c # refs) (s, mx) = actionOnObjects a refs (s, mx)"
      by (simp add: actionOnObjects_def)
    from Cons.IH [OF d r] n False show ?thesis
      by (simp add: st split: prod.split)
  qed
qed

lemma foldl_actionOnObjects_columns:
  "distinct refs \<Longrightarrow> \<forall>c \<in> set refs. c < length (colObjs s) \<Longrightarrow>
     foldl (\<lambda>st a. actionOnObjects a refs st) (s, mx) actions = (s1, mx1) \<Longrightarrow>
     foldl (\<lambda>(cs, mx) a. actionOnColumns a cs mx) (map (\<lambda>c. colObjs s ! c) refs, mx) actions =
       (map (\<lambda>c. colObjs s1 ! c) refs, mx1) \<and>
     profObjs s1 = profObjs s \<and> length (colObjs s1) = length (colObjs s) \<and>
     (\<forall>c. c \<notin> set refs \<longrightarrow> colObjs s1 ! c = colObjs s ! c)"
proof (induction actions arbitrary: s mx)
  case Nil
  then show ?case by simp
next
  case (Cons a actions)
  obtain s2 mx2 where st: "actionOnObjects a refs (s, mx) = (s2, mx2)"
    by (cases "actionOnObjects a refs (s, mx)")
  note A = actionOnObjects_columns [OF Cons.prems(1,2), of a mx, unfolded st fst_conv snd_conv]
  from A Cons.prems(2) have r2: "\<forall>c \<in> set refs. c < length (colObjs s2)" by simp
  from Cons.prems(3) st
  have f: "foldl (\<lambda>st a. actionOnObjects a refs st) (s2, mx2) actions = (s1, mx1)" by simp
  note B = Cons.IH [OF Cons.prems(1) r2 f]
  from A have "actionOnColumns a (map (\<lambda>c. colObjs s ! c) refs) mx =
      (map (\<lambda>c. colObjs s2 ! c) refs, mx2)"
    by (simp add: prod_eq_iff)
  with A B show ?case by simp
qed

lemma foldl_propagateObject_columns:
  "distinct refs \<Longrightarrow> \<forall>c \<in> set refs. c < length (colObjs s) \<Longrightarrow>
     map (\<lambda>c. colObjs (foldl (propagateObject acts mx orig) s refs) ! c) refs =
       map (\<lambda>c. propagate acts mx orig (colObjs s ! c)) refs \<and>
     profObjs (foldl (propagateObject acts mx orig) s refs) = profObjs s \<and>
     length (colObjs (foldl (propagateObject acts mx orig) s refs)) = length (colObjs s) \<and>
     (\<forall>c. c \<notin> set refs \<longrightarrow>
        colObjs (foldl (propagateObject acts mx orig) s refs) ! c = colObjs s ! c)"
proof (induction refs arbitrary: s)
  case Nil
  show ?case by simp
next
  case (Cons c refs)
  let ?s1 = "propagateObject acts mx orig s c"
  from Cons.prems have d: "distinct refs" and n: "c \<notin> set refs"
    and r: "\<forall>c \<in> set refs. c < length (colObjs ?s1)" and l: "c < length (colObjs s)"
    by (simp_all add: propagateObject_def)
  note A = Cons.IH [OF d r]
  have p: "profObjs ?s1 = profObjs s" "length (colObjs ?s1) = length (colObjs s)"
    by (simp_all add: propagateObject_def)
  from l have c: "colObjs ?s1 ! c = propagate acts mx orig (colObjs s ! c)"
    by (simp add: propagateObject_def)
  have o: "colObjs ?s1 ! q = colObjs s ! q" if "q \<noteq> c" for q
    using that by (simp add: propagateObject_def)
  have "map (\<lambda>q. propagate acts mx orig (colObjs ?s1 ! q)) refs =
      map (\<lambda>q. propagate acts mx orig (colObjs s ! q)) refs"
  proof (intro map_cong refl)
    fix q assume "q \<in> set refs"
    with n have "q \<noteq> c" by auto
    then show "propagate acts mx orig (colObjs ?s1 ! q) = propagate acts mx orig (colObjs s ! q)"
      by (simp add: o)
  qed
  with A n c o p show ?case by simp
qed

lemma processObject_deref:
  assumes r: "r < length (profObjs s)"
    and d: "distinct (o_columns (profObjs s ! r))"
    and l: "\<forall>c \<in> set (o_columns (profObjs s ! r)). c < length (colObjs s)"
  shows "derefProfile (processObject s r acts) r = processFile (derefProfile s r) acts \<and>
     length (profObjs (processObject s r acts)) = length (profObjs s) \<and>
     length (colObjs (processObject s r acts)) = length (colObjs s) \<and>
     (\<forall>q. o_columns (profObjs (processObject s r acts) ! q) = o_columns (profObjs s ! q)) \<and>
     (\<forall>q. q \<noteq> r \<longrightarrow> profObjs (processObject s r acts) ! q = profObjs s ! q) \<and>
     (\<forall>c. c \<notin> set (o_columns (profObjs s ! r)) \<longrightarrow>
        colObjs (processObject s r acts) ! c = colObjs s ! c)"
proof -
  let ?refs = "o_columns (profObjs s ! r)"
  obtain s1 mx1 where f: "foldl (\<lambda>st a. actionOnObjects a ?refs st) (s, Fin 0) acts = (s1, mx1)"
    by (cases "foldl (\<lambda>st a. actionOnObjects a ?refs st) (s, Fin 0) acts")
  note A = foldl_actionOnObjects_columns [OF d l f]
  from A have v: "foldl (\<lambda>(cs, mx) a. actionOnColumns a cs mx)
      (map (\<lambda>c. colObjs s ! c) ?refs, Fin 0) acts = (map (\<lambda>c. colObjs s1 ! c) ?refs, mx1)"
    and p1: "profObjs s1 = profObjs s" and l1: "length (colObjs s1) = length (colObjs s)"
    and o1: "\<forall>c. c \<notin> set ?refs \<longrightarrow> colObjs s1 ! c = colObjs s ! c"
    by simp_all
  show ?thesis
  proof (cases "js_gt mx1 (Fin 0)")
    case False
    with f have e: "processObject s r acts = s1" by (simp add: processObject_def)
    from v False p1 have "derefProfile s1 r = processFile (derefProfile s r) acts"
      by (simp add: derefProfile_def processFile_def Let_def)
    with p1 l1 o1 show ?thesis by (simp add: e)
  next
    case True
    define po where "po = (profObjs s ! r)
      \<lparr>o_rowCount := floorZero (js_sub (o_rowCount (profObjs s ! r)) mx1)\<rparr>"
    define s2 where "s2 = s1\<lparr>profObjs := (profObjs s)[r := po]\<rparr>"
    define s3 where "s3 = foldl (propagateObject acts mx1 (o_rowCount (profObjs s ! r))) s2 ?refs"
    from f True p1 have e: "processObject s r acts = s3"
      by (simp add: processObject_def s3_def s2_def po_def Let_def)
    from l l1 have l2: "\<forall>c \<in> set ?refs. c < length (colObjs s2)" by (simp add: s2_def)
    note B = foldl_propagateObject_columns [OF d l2, of acts mx1 "o_rowCount (profObjs s ! r)",
        folded s3_def]
    from B have c3: "map (\<lambda>c. colObjs s3 ! c) ?refs =
        map (propagate acts mx1 (o_rowCount (profObjs s ! r))) (map (\<lambda>c. colObjs s1 ! c) ?refs)"
      and p3: "profObjs s3 = (profObjs s)[r := po]"
      and l3: "length (colObjs s3) = length (colObjs s)"
      and o3: "\<forall>c. c \<notin> set ?refs \<longrightarrow> colObjs s3 ! c = colObjs s1 ! c"
      by (simp_all add: s2_def l1 o_def)
    from r p3 have pr: "profObjs s3 ! r = po" by simp
    have oc: "o_columns po = ?refs" by (simp add: po_def)
    have dc: "columns (derefProfile s r) = map (\<lambda>c. colObjs s ! c) ?refs"
      and dr: "rowCount (derefProfile s r) = o_rowCount (profObjs s ! r)"
      by (simp_all add: derefProfile_def Let_def)
    have "processFile (derefProfile s r) acts =
        (derefProfile s r)
          \<lparr>rowCount := floorZero (js_sub (o_rowCount (profObjs s ! r)) mx1),
           columns := map (propagate acts mx1 (o_rowCount (profObjs s ! r)))
             (map (\<lambda>c. colObjs s1 ! c) ?refs)\<rparr>"
      using True by (simp add: processFile_def dc dr v)
    also have "\<dots> = derefProfile s3 r"
      using c3 by (simp add: derefProfile_def Let_def pr) (simp add: po_def)
    finally have D: "derefProfile s3 r = processFile (derefProfile s r) acts" by simp
    have Q: "o_columns (profObjs s3 ! q) = o_columns (profObjs s ! q)" for q
      using r oc by (cases "q = r") (simp_all add: p3)
    have N: "profObjs s3 ! q = profObjs s ! q" if "q \<noteq> r" for q
      using that by (simp add: p3)
    from D Q N l3 o3 o1 p3 show ?thesis by (simp add: e)
  qed
qed


lemma derefProfile_extend:
  assumes "take (length (profObjs s)) (profObjs s') = profObjs s"
    and "take (length (colObjs s)) (colObjs s') = colObjs s"
    and "r < length (profObjs s)"
    and "\<forall>c \<in> set (o_columns (profObjs s ! r)). c < length (colObjs s)"
  shows "derefProfile s' r = derefProfile s r \<and> profObjs s' ! r = profObjs s ! r"
proof -
  from assms(1,3) have p: "profObjs s' ! r = profObjs s ! r" by (metis nth_take)
  have "colObjs s' ! c = colObjs s ! c" if "c < length (colObjs s)" for c
    using assms(2) that by (metis nth_take)
  with assms(4) have "map (\<lambda>c. colObjs s' ! c) (o_columns (profObjs s ! r)) =
      map (\<lambda>c. colObjs s ! c) (o_columns (profObjs s ! r))"
    by (intro map_cong) simp_all
  with p show ?thesis by (simp add: derefProfile_def Let_def)
qed

lemma derefMap_apply: "derefMap s pmap f = map_option (derefProfile s) (map_of pmap f)"
  by (induction pmap) (auto simp: derefMap_def)

lemma nth_appended: "map (\<lambda>c. (xs @ ys) ! c) [length xs ..< length xs + length ys] = ys"
proof -
  have "[length xs ..< length xs + length ys] = map (\<lambda>i. i + length xs) [0 ..< length ys]"
    by (simp add: map_add_upt add.commute)
  then have "map (\<lambda>c. (xs @ ys) ! c) [length xs ..< length xs + length ys] =
      map (\<lambda>i. (xs @ ys) ! (i + length xs)) [0 ..< length ys]"
    by (simp only: map_map o_def)
  also have "\<dots> = map (\<lambda>i. ys ! i) [0 ..< length ys]"
    by (simp add: nth_append)
  also have "\<dots> = ys" by (rule map_nth)
  finally show ?thesis .
qed

lemma copyProfile_spec:
  assumes "copyProfile s r = (s1, r')"
  shows "r' = length (profObjs s)" and "length (profObjs s1) = Suc (length (profObjs s))"
    and "length (colObjs s) \<le> length (colObjs s1)"
    and "take (length (profObjs s)) (profObjs s1) = profObjs s"
    and "take (length (colObjs s)) (colObjs s1) = colObjs s"
    and "o_columns (profObjs s1 ! r') = [length (colObjs s) ..< length (colObjs s1)]"
    and "derefProfile s1 r' = jsonProfile (derefProfile s r)"
proof -
  let ?new = "map (\<lambda>c. jsonColumn (colObjs s ! c)) (o_columns (profObjs s ! r))"
  let ?po = "\<lparr>o_rowCount = jsonNumber (o_rowCount (profObjs s ! r)),
          o_columnCount = jsonNumber (o_columnCount (profObjs s ! r)),
          o_columns = [length (colObjs s) ..< length (colObjs s) + length ?new],
          o_aiInsights = o_aiInsights (profObjs s ! r)\<rparr>"
  from assms have s1: "colObjs s1 = colObjs s @ ?new"
    and p1: "profObjs s1 = profObjs s @ [?po]"
    and r': "r' = length (profObjs s)"
    by (auto simp: copyProfile_def Let_def)
  have po: "profObjs s1 ! r' = ?po" by (simp add: p1 r')
  have "map (\<lambda>c. colObjs s1 ! c) [length (colObjs s) ..< length (colObjs s) + length ?new] = ?new"
    unfolding s1 by (rule nth_appended)
  then show "derefProfile s1 r' = jsonProfile (derefProfile s r)"
    by (simp add: derefProfile_def po jsonProfile_def Let_def o_def)
  show "r' = length (profObjs s)" by (rule r')
  show "length (profObjs s1) = Suc (length (profObjs s))" by (simp add: p1)
  show "length (colObjs s) \<le> length (colObjs s1)" by (simp add: s1)
  show "take (length (profObjs s)) (profObjs s1) = profObjs s" by (simp add: p1)
  show "take (length (colObjs s)) (colObjs s1) = colObjs s" by (simp add: s1)
  show "o_columns (profObjs s1 ! r') = [length (colObjs s) ..< length (colObjs s1)]"
    by (simp add: po) (simp add: s1)
qed

lemma copyMap_spec:
  "\<forall>(f, r) \<in> set pmap. r < length (profObjs s) \<and>
       (\<forall>c \<in> set (o_columns (profObjs s ! r)). c < length (colObjs s)) \<Longrightarrow>
   copyMap s pmap = (s', newMap) \<Longrightarrow>
     take (length (profObjs s)) (profObjs s') = profObjs s \<and>
     take (length (colObjs s)) (colObjs s') = colObjs s \<and>
     length (profObjs s) \<le> length (profObjs s') \<and> length (colObjs s) \<le> length (colObjs s') \<and>
     map fst newMap = map fst pmap \<and>
     derefMap s' newMap = jsonCopy (derefMap s pmap) \<and>
     separate s' (map snd newMap) \<and>
     (\<forall>q \<in> set (map snd newMap). length (profObjs s) \<le> q \<and>
        (\<forall>c \<in> set (o_columns (profObjs s' ! q)). length (colObjs s) \<le> c))"
proof (induction pmap arbitrary: s s' newMap)
  case Nil
  then show ?case by (simp add: separate_def derefMap_def jsonCopy_def fun_eq_iff)
next
  case (Cons e pmap)
  obtain f r where e: "e = (f, r)" by (cases e)
  obtain s1 r' where c1: "copyProfile s r = (s1, r')" by (cases "copyProfile s r")
  obtain s2 rest' where c2: "copyMap s1 pmap = (s2, rest')" by (cases "copyMap s1 pmap")
  from Cons.prems(2) e c1 c2 have s': "s' = s2" and nm: "newMap = (f, r') # rest'"
    by simp_all
  note P = copyProfile_spec [OF c1]
  note r' = P(1) and lp1 = P(2) and lc1 = P(3) and tp1 = P(4) and tc1 = P(5) and oc1 = P(6)
    and d1 = P(7)
  from Cons.prems(1) e have wr: "r < length (profObjs s)"
    and wrest: "\<forall>(g, q) \<in> set pmap. q < length (profObjs s) \<and>
       (\<forall>c \<in> set (o_columns (profObjs s ! q)). c < length (colObjs s))"
    by simp_all
  have ext1: "derefProfile s1 q = derefProfile s q \<and> profObjs s1 ! q = profObjs s ! q"
    if "(g, q) \<in> set pmap" for g q
    using derefProfile_extend [OF tp1 tc1, of q] wrest that by auto
  have w1: "\<forall>(g, q) \<in> set pmap. q < length (profObjs s1) \<and>
       (\<forall>c \<in> set (o_columns (profObjs s1 ! q)). c < length (colObjs s1))"
  proof (clarify, intro conjI ballI)
    fix g q assume m: "(g, q) \<in> set pmap"
    with wrest have q: "q < length (profObjs s)"
      and qc: "\<forall>c \<in> set (o_columns (profObjs s ! q)). c < length (colObjs s)"
      by blast+
    from q lp1 show "q < length (profObjs s1)" by simp
    fix c assume "c \<in> set (o_columns (profObjs s1 ! q))"
    with ext1 [OF m] have "c \<in> set (o_columns (profObjs s ! q))" by simp
    with qc have "c < length (colObjs s)" by blast
    with lc1 show "c < length (colObjs s1)" by simp
  qed
  note I = Cons.IH [OF w1 c2]
  from I have tp2: "take (length (profObjs s1)) (profObjs s2) = profObjs s1"
    and tc2: "take (length (colObjs s1)) (colObjs s2) = colObjs s1"
    and lp2: "length (profObjs s1) \<le> length (profObjs s2)"
    and lc2: "length (colObjs s1) \<le> length (colObjs s2)"
    and k2: "map fst rest' = map fst pmap"
    and d2: "derefMap s2 rest' = jsonCopy (derefMap s1 pmap)"
    and sep2: "separate s2 (map snd rest')"
    and fr2: "\<forall>q \<in> set (map snd rest'). length (profObjs s1) \<le> q \<and>
        (\<forall>c \<in> set (o_columns (profObjs s2 ! q)). length (colObjs s1) \<le> c)"
    by simp_all
  have tp: "take (length (profObjs s)) (profObjs s2) = profObjs s"
  proof -
    have "take (length (profObjs s)) (take (length (profObjs s1)) (profObjs s2)) =
        take (length (profObjs s)) (profObjs s2)"
      using lp1 by (simp add: min_def)
    with tp1 tp2 show ?thesis by simp
  qed
  have tc: "take (length (colObjs s)) (colObjs s2) = colObjs s"
  proof -
    have "take (length (colObjs s)) (take (length (colObjs s1)) (colObjs s2)) =
        take (length (colObjs s)) (colObjs s2)"
      using lc1 by (simp add: min_def)
    with tc1 tc2 show ?thesis by simp
  qed
  have in1: "r' < length (profObjs s1)"
    "\<forall>c \<in> set (o_columns (profObjs s1 ! r')). c < length (colObjs s1)"
    by (simp_all add: r' lp1 oc1 [unfolded r'])
  note E = derefProfile_extend [OF tp2 tc2 in1]
  from E d1 oc1 have d': "derefProfile s2 r' = jsonProfile (derefProfile s r)"
    and oc2: "o_columns (profObjs s2 ! r') = [length (colObjs s) ..< length (colObjs s1)]"
    by simp_all
  have dm1: "derefMap s1 pmap = derefMap s pmap"
  proof (rule ext)
    fix g
    show "derefMap s1 pmap g = derefMap s pmap g"
    proof (cases "map_of pmap g")
      case None
      then show ?thesis by (simp add: derefMap_apply)
    next
      case (Some q)
      then have "(g, q) \<in> set pmap" by (rule map_of_SomeD)
      from ext1 [OF this] Some show ?thesis by (simp add: derefMap_apply)
    qed
  qed
  have D: "derefMap s2 ((f, r') # rest') = jsonCopy (derefMap s ((f, r) # pmap))"
  proof (rule ext)
    fix g
    from d2 dm1 have "map_option (derefProfile s2) (map_of rest' g) =
        map_option jsonProfile (map_option (derefProfile s) (map_of pmap g))"
      by (simp add: fun_eq_iff derefMap_apply jsonCopy_def)
    with d' show "derefMap s2 ((f, r') # rest') g = jsonCopy (derefMap s ((f, r) # pmap)) g"
      by (simp add: derefMap_apply jsonCopy_def)
  qed
  have fresh2: "length (profObjs s) \<le> q \<and>
        (\<forall>c \<in> set (o_columns (profObjs s2 ! q)). length (colObjs s) \<le> c)"
    if "q \<in> set (map snd rest')" for q
  proof -
    from fr2 that have a: "length (profObjs s1) \<le> q"
      and b: "\<forall>c \<in> set (o_columns (profObjs s2 ! q)). length (colObjs s1) \<le> c"
      by blast+
    from a lp1 have "length (profObjs s) \<le> q" by simp
    moreover from b lc1 have "\<forall>c \<in> set (o_columns (profObjs s2 ! q)). length (colObjs s) \<le> c"
      by (meson le_trans)
    ultimately show ?thesis by blast
  qed
  have fresh1: "length (profObjs s) \<le> r' \<and>
        (\<forall>c \<in> set (o_columns (profObjs s2 ! r')). length (colObjs s) \<le> c)"
    by (simp add: oc2) (simp add: r')
  from fresh1 fresh2
  have fresh: "\<forall>q \<in> set (map snd ((f, r') # rest')). length (profObjs s) \<le> q \<and>
        (\<forall>c \<in> set (o_columns (profObjs s2 ! q)). length (colObjs s) \<le> c)"
    by (metis list.simps(9) set_ConsD snd_conv)
  have S: "separate s2 (map snd ((f, r') # rest'))"
  proof -
    have n: "r' \<notin> set (map snd rest')"
    proof
      assume "r' \<in> set (map snd rest')"
      with fr2 have "length (profObjs s1) \<le> r'" by blast
      with lp1 r' show False by simp
    qed
    have a: "r' < length (profObjs s2)" using in1(1) lp2 by simp
    have b: "distinct (o_columns (profObjs s2 ! r'))" by (simp add: oc2)
    have c: "\<forall>c \<in> set (o_columns (profObjs s2 ! r')). c < length (colObjs s2)"
      using lc2 by (simp add: oc2)
    have dj: "set (o_columns (profObjs s2 ! r')) \<inter> set (o_columns (profObjs s2 ! q)) = {}"
      if "q \<in> set (map snd rest')" for q
    proof -
      from fr2 that have "\<forall>c \<in> set (o_columns (profObjs s2 ! q)). length (colObjs s1) \<le> c"
        by blast
      then have "\<forall>c \<in> set (o_columns (profObjs s2 ! q)). c \<notin> set (o_columns (profObjs s2 ! r'))"
        by (auto simp: oc2)
      then show ?thesis by blast
    qed
    from sep2 have s1: "distinct (map snd rest')"
      and s2: "\<forall>q \<in> set (map snd rest'). q < length (profObjs s2) \<and>
          distinct (o_columns (profObjs s2 ! q)) \<and>
          (\<forall>c \<in> set (o_columns (profObjs s2 ! q)). c < length (colObjs s2))"
      and s3: "\<forall>q \<in> set (map snd rest'). \<forall>t \<in> set (map snd rest'). q \<noteq> t \<longrightarrow>
          set (o_columns (profObjs s2 ! q)) \<inter> set (o_columns (profObjs s2 ! t)) = {}"
      unfolding separate_def by blast+
    have "distinct (map snd ((f, r') # rest'))" using s1 n by simp
    moreover have "\<forall>q \<in> set (map snd ((f, r') # rest')). q < length (profObjs s2) \<and>
          distinct (o_columns (profObjs s2 ! q)) \<and>
          (\<forall>c \<in> set (o_columns (profObjs s2 ! q)). c < length (colObjs s2))"
      using s2 a b c by simp
    moreover have "set (o_columns (profObjs s2 ! q)) \<inter> set (o_columns (profObjs s2 ! t)) = {}"
      if "q \<in> set (map snd ((f, r') # rest'))" "t \<in> set (map snd ((f, r') # rest'))" "q \<noteq> t"
      for q t
    proof (cases "q = r'")
      case True
      with that have "t \<in> set (map snd rest')" by auto
      from dj [OF this] True show ?thesis by simp
    next
      case False
      with that have q: "q \<in> set (map snd rest')" by auto
      show ?thesis
      proof (cases "t = r'")
        case True
        from dj [OF q] True show ?thesis by (simp add: Int_commute)
      next
        case False
        with that have "t \<in> set (map snd rest')" by auto
        with s3 q that(3) show ?thesis by blast
      qed
    qed
    ultimately show ?thesis unfolding separate_def by blast
  qed
  from tp tc lp1 lp2 lc1 lc2 k2 D S fresh show ?case
    by (simp add: s' nm e)
qed


lemma processObject_separate:
  assumes sep: "separate s rs" and r: "r \<in> set rs"
  shows "separate (processObject s r acts) rs"
    and "derefProfile (processObject s r acts) r = processFile (derefProfile s r) acts"
    and "\<forall>q \<in> set rs. q \<noteq> r \<longrightarrow> derefProfile (processObject s r acts) q = derefProfile s q"
proof -
  let ?s = "processObject s r acts"
  from sep have d: "distinct rs"
    and w: "\<forall>q \<in> set rs. q < length (profObjs s) \<and> distinct (o_columns (profObjs s ! q)) \<and>
        (\<forall>c \<in> set (o_columns (profObjs s ! q)). c < length (colObjs s))"
    and j: "\<forall>q \<in> set rs. \<forall>t \<in> set rs. q \<noteq> t \<longrightarrow>
        set (o_columns (profObjs s ! q)) \<inter> set (o_columns (profObjs s ! t)) = {}"
    unfolding separate_def by blast+
  from w r have r1: "r < length (profObjs s)" and r2: "distinct (o_columns (profObjs s ! r))"
    and r3: "\<forall>c \<in> set (o_columns (profObjs s ! r)). c < length (colObjs s)"
    by blast+
  note P = processObject_deref [OF r1 r2 r3, of acts]
  from P have lp: "length (profObjs ?s) = length (profObjs s)"
    and lc: "length (colObjs ?s) = length (colObjs s)"
    and oc: "\<And>q. o_columns (profObjs ?s ! q) = o_columns (profObjs s ! q)"
    and po: "\<And>q. q \<noteq> r \<Longrightarrow> profObjs ?s ! q = profObjs s ! q"
    and co: "\<And>c. c \<notin> set (o_columns (profObjs s ! r)) \<Longrightarrow> colObjs ?s ! c = colObjs s ! c"
    by simp_all
  from P show "derefProfile ?s r = processFile (derefProfile s r) acts" by simp
  from d w j show "separate ?s rs" unfolding separate_def oc lp lc by blast
  show "\<forall>q \<in> set rs. q \<noteq> r \<longrightarrow> derefProfile ?s q = derefProfile s q"
  proof (intro ballI impI)
    fix q assume q: "q \<in> set rs" "q \<noteq> r"
    with j r have "set (o_columns (profObjs s ! q)) \<inter> set (o_columns (profObjs s ! r)) = {}"
      by blast
    then have "\<forall>c \<in> set (o_columns (profObjs s ! q)). colObjs ?s ! c = colObjs s ! c"
      using co by blast
    then have "map (\<lambda>c. colObjs ?s ! c) (o_columns (profObjs s ! q)) =
        map (\<lambda>c. colObjs s ! c) (o_columns (profObjs s ! q))"
      by (intro map_cong) simp_all
    with po [OF q(2)] show "derefProfile ?s q = derefProfile s q"
      by (simp add: derefProfile_def Let_def)
  qed
qed

lemma groupsOnStore_deref:
  "separate s (map snd newMap) \<Longrightarrow> distinct (map fst groups) \<Longrightarrow>
     separate (groupsOnStore newMap s groups) (map snd newMap) \<and>
     (\<forall>f r. map_of newMap f = Some r \<longrightarrow>
        derefProfile (groupsOnStore newMap s groups) r =
          (case map_of groups f of
             None \<Rightarrow> derefProfile s r
           | Some acts \<Rightarrow> processFile (derefProfile s r) acts))"
proof (induction groups arbitrary: s)
  case Nil
  then show ?case by (simp add: groupsOnStore_def)
next
  case (Cons g groups)
  obtain fName acts where g: "g = (fName, acts)" by (cases g)
  from Cons.prems(2) g have dg: "distinct (map fst groups)"
    and ng: "map_of groups fName = None"
    by (auto simp: map_of_eq_None_iff)
  show ?case
  proof (cases "map_of newMap fName")
    case None
    then have e: "groupsOnStore newMap s ((fName, acts) # groups) = groupsOnStore newMap s groups"
      by (simp add: groupsOnStore_def)
    from None have "f \<noteq> fName" if "map_of newMap f = Some r" for f r
      using that by auto
    with Cons.IH [OF Cons.prems(1) dg] show ?thesis
      by (simp add: g e)
  next
    case (Some r0)
    let ?s1 = "processObject s r0 acts"
    from Some
    have e: "groupsOnStore newMap s ((fName, acts) # groups) = groupsOnStore newMap ?s1 groups"
      by (simp add: groupsOnStore_def)
    from Some have m0: "(fName, r0) \<in> set newMap" by (rule map_of_SomeD)
    then have r0: "r0 \<in> set (map snd newMap)" by force
    note P = processObject_separate [OF Cons.prems(1) r0, of acts]
    note I = Cons.IH [OF P(1) dg]
    from Cons.prems(1) have dn: "distinct (map snd newMap)" by (simp add: separate_def)
    have "derefProfile (groupsOnStore newMap ?s1 groups) r =
        (case map_of ((fName, acts) # groups) f of
           None \<Rightarrow> derefProfile s r
         | Some acts \<Rightarrow> processFile (derefProfile s r) acts)"
      if m: "map_of newMap f = Some r" for f r
    proof (cases "f = fName")
      case True
      with m Some have "r = r0" by simp
      with I m True ng P(2) show ?thesis by simp
    next
      case False
      from m have mr: "(f, r) \<in> set newMap" by (rule map_of_SomeD)
      have "r \<noteq> r0"
      proof
        assume "r = r0"
        with mr m0 dn have "(f, r) = (fName, r0)"
          by (metis (no_types, lifting) distinct_map inj_onD snd_conv)
        with False show False by simp
      qed
      moreover from mr have "r \<in> set (map snd newMap)" by force
      ultimately have "derefProfile ?s1 r = derefProfile s r" using P(3) by blast
      with I m False show ?thesis by (simp split: option.split)
    qed
    with I show ?thesis by (simp add: g e)
  qed
qed

lemma applyOnStore_refines:
  assumes wf: "wfStore s pmap" and run: "applyOnStore s pmap selected = (s', Inr pmap')"
  shows "derefMap s' pmap' = newProfiles (derefMap s pmap) selected"
    and "map fst pmap' = map fst pmap"
    and "separate s' (map snd pmap')"
    and "\<forall>q \<in> set (map snd pmap'). length (profObjs s) \<le> q \<and>
        (\<forall>c \<in> set (o_columns (profObjs s' ! q)). length (colObjs s) \<le> c)"
proof -
  obtain s1 newMap where c: "copyMap s pmap = (s1, newMap)" by (cases "copyMap s pmap")
  from wf have w: "\<forall>(f, r) \<in> set pmap. r < length (profObjs s) \<and>
       (\<forall>c \<in> set (o_columns (profObjs s ! r)). c < length (colObjs s))"
    by (simp add: wfStore_def list_all_iff)
  note C = copyMap_spec [OF w c]
  from C have k: "map fst newMap = map fst pmap"
    and dm: "derefMap s1 newMap = jsonCopy (derefMap s pmap)"
    and sep: "separate s1 (map snd newMap)"
    and fr: "\<forall>q \<in> set (map snd newMap). length (profObjs s) \<le> q \<and>
        (\<forall>c \<in> set (o_columns (profObjs s1 ! q)). length (colObjs s) \<le> c)"
    by blast+
  from run c have g: "actionsByFile selected = Inr (ownGroups selected)"
    by (auto simp: applyOnStore_def actionsByFile_eq split: if_splits)
  with run c have s': "s' = groupsOnStore newMap s1 (ownGroups selected)"
    and p': "pmap' = newMap"
    by (auto simp: applyOnStore_def)
  note G = groupsOnStore_deref [OF sep distinct_ownGroups, of selected, folded s']
  from k show "map fst pmap' = map fst pmap" by (simp add: p')
  from G show "separate s' (map snd pmap')" by (simp add: p')
  show "derefMap s' pmap' = newProfiles (derefMap s pmap) selected"
  proof (rule ext)
    fix f
    from dm have dmf: "map_option (derefProfile s1) (map_of newMap f) =
        map_option jsonProfile (derefMap s pmap f)"
      by (simp add: fun_eq_iff derefMap_apply [of s1] jsonCopy_def)
    show "derefMap s' pmap' f = newProfiles (derefMap s pmap) selected f"
    proof (cases "map_of newMap f")
      case None
      with dmf have "derefMap s pmap f = None" by simp
      with None show ?thesis by (simp add: p' derefMap_apply [of s'] newProfiles_file)
    next
      case (Some r)
      with dmf obtain p where p: "derefMap s pmap f = Some p"
        and j: "derefProfile s1 r = jsonProfile p"
        by (cases "derefMap s pmap f") auto
      from G Some have "derefProfile s' r =
          (case map_of (ownGroups selected) f of
             None \<Rightarrow> derefProfile s1 r
           | Some acts \<Rightarrow> processFile (derefProfile s1 r) acts)"
        by blast
      with j have "derefProfile s' r = processFile (jsonProfile p) (actionsFor f selected)"
        by (simp add: map_of_ownGroups processFile_Nil)
      with Some p show ?thesis by (simp add: p' derefMap_apply [of s'] newProfiles_file)
    qed
  qed
  show "\<forall>q \<in> set (map snd pmap'). length (profObjs s) \<le> q \<and>
        (\<forall>c \<in> set (o_columns (profObjs s' ! q)). length (colObjs s) \<le> c)"
  proof
    fix q assume q: "q \<in> set (map snd pmap')"
    with fr p' have a: "length (profObjs s) \<le> q"
      and b: "\<forall>c \<in> set (o_columns (profObjs s1 ! q)). length (colObjs s) \<le> c"
      by blast+
    have "o_columns (profObjs (groupsOnStore newMap t groups) ! q) = o_columns (profObjs t ! q)"
      if "separate t (map snd newMap)" for t groups
      using that
    proof (induction groups arbitrary: t)
      case Nil
      show ?case by (simp add: groupsOnStore_def)
    next
      case (Cons g groups)
      obtain fName acts where g: "g = (fName, acts)" by (cases g)
      show ?case
      proof (cases "map_of newMap fName")
        case None
        with Cons g show ?thesis by (simp add: groupsOnStore_def)
      next
        case (Some r0)
        then have r0: "r0 \<in> set (map snd newMap)" by (force dest: map_of_SomeD)
        with Cons.prems have "r0 < length (profObjs t)"
          "distinct (o_columns (profObjs t ! r0))"
          "\<forall>c \<in> set (o_columns (profObjs t ! r0)). c < length (colObjs t)"
          unfolding separate_def by blast+
        from processObject_deref [OF this, of acts]
        have "o_columns (profObjs (processObject t r0 acts) ! q) = o_columns (profObjs t ! q)"
          by simp
        with Cons.IH [OF processObject_separate(1) [OF Cons.prems r0], of acts] Some g
        show ?thesis by (simp add: groupsOnStore_def)
      qed
    qed
    from this [OF sep] b a
    show "length (profObjs s) \<le> q \<and>
        (\<forall>c \<in> set (o_columns (profObjs s' ! q)). length (colObjs s) \<le> c)"
      by (simp add: s')
  qed
qed


lemma applyOnStore_old_map:
  assumes wf: "wfStore s pmap" and run: "applyOnStore s pmap selected = (s', res)"
  shows "derefMap s' pmap = derefMap s pmap"
proof (rule ext)
  fix f
  note U = applyOnStore_untouched [OF run]
  show "derefMap s' pmap f = derefMap s pmap f"
  proof (cases "map_of pmap f")
    case None
    then show ?thesis by (simp add: derefMap_apply)
  next
    case (Some r)
    then have "(f, r) \<in> set pmap" by (rule map_of_SomeD)
    with wf have "r < length (profObjs s)"
      "\<forall>c \<in> set (o_columns (profObjs s ! r)). c < length (colObjs s)"
      by (auto simp: wfStore_def list_all_iff)
    from derefProfile_extend [OF conjunct2 [OF U] conjunct1 [OF U] this] Some
    show ?thesis by (simp add: derefMap_apply)
  qed
qed

lemma applyOnStore_result:
  assumes "applyOnStore s pmap selected = (s', res)"
  shows "res = Inl TypeError \<longleftrightarrow> (\<exists>a \<in> snd ` set selected. inheritedKey (action_file a))"
    and "(\<exists>pmap'. res = Inr pmap') \<longleftrightarrow> \<not> (\<exists>a \<in> snd ` set selected. inheritedKey (action_file a))"
  using assms
  by (auto simp: applyOnStore_def actionsByFile_eq list_ex_iff split: prod.splits if_splits)


subsection \<open>What the copy changes\<close>

lemma jsonNumber_stable: "jsonNumber x = x \<longleftrightarrow> jsonStable x"
  by (cases x) (simp_all add: jsonStable_def)

lemma jsonColumn_stable: "jsonColumn c = c \<longleftrightarrow> stableColumn c"
proof (cases c)
  case (fields nm dt mv uv nn)
  show ?thesis
    by (cases nn) (auto simp: fields jsonColumn_def stableColumn_def jsonNumber_stable)
qed

lemma map_jsonColumn_stable: "map jsonColumn cs = cs \<longleftrightarrow> list_all stableColumn cs"
  by (induction cs) (simp_all add: jsonColumn_stable)

lemma jsonProfile_stable: "jsonProfile p = p \<longleftrightarrow> stableProfile p"
proof (cases p)
  case (fields rc cc cs m)
  show ?thesis
    by (simp add: fields jsonProfile_def stableProfile_def jsonNumber_stable
        map_jsonColumn_stable)
qed

subsection \<open>Applying is atomic and leaves its input as it was\<close>

text \<open>
  C8. The handler works on a copy. Whatever the staged selections, no object of the store
  it starts from is written to, so the current profile map denotes in the store it leaves
  what it denoted before. Either the grouping raises a \<open>TypeError\<close> (a selection names a
  file by the name of a member of \<open>Object.prototype\<close>) and nothing is committed, or the
  handler commits one new map with the same files, made of new objects only, which
  denotes \<open>newProfiles\<close> of what the current map denotes; this is the one replacement of
  \<open>profiles\<close> that \<open>handleApplyChanges\<close> makes. A file without a selection has in the
  new map the JSON copy of its profile, and the JSON copy of a profile is that profile
  exactly when none of its numbers is \<open>NaN\<close> or an infinity (which come back as \<open>null\<close>).
  (The handler runs to its end before anything else reads \<open>profiles\<close>, and each of its
  steps leaves the old objects as they were: the lemmas on \<open>untouched\<close>.)
\<close>

theorem apply_nondestructive:
  assumes "wfStore s pmap" and "applyOnStore s pmap selected = (s', res)"
  shows "take (length (colObjs s)) (colObjs s') = colObjs s \<and>
     take (length (profObjs s)) (profObjs s') = profObjs s \<and>
     derefMap s' pmap = derefMap s pmap \<and>
     (res = Inl TypeError \<longleftrightarrow> (\<exists>a \<in> snd ` set selected. inheritedKey (action_file a))) \<and>
     ((\<exists>pmap'. res = Inr pmap') \<longleftrightarrow>
        \<not> (\<exists>a \<in> snd ` set selected. inheritedKey (action_file a))) \<and>
     (\<forall>pmap'. res = Inr pmap' \<longrightarrow>
        map fst pmap' = map fst pmap \<and>
        (\<forall>q \<in> set (map snd pmap'). length (profObjs s) \<le> q \<and>
           (\<forall>c \<in> set (o_columns (profObjs s' ! q)). length (colObjs s) \<le> c)) \<and>
        derefMap s' pmap' = newProfiles (derefMap s pmap) selected) \<and>
     handleApplyChanges \<lparr>profiles = derefMap s pmap, activePage = pg\<rparr> selected =
       map_sum id (\<lambda>pmap'. \<lparr>profiles = derefMap s' pmap', activePage = Data_Modeling\<rparr>) res \<and>
     dom (newProfiles profs selected) = dom profs \<and>
     ((\<forall>a \<in> snd ` set selected. action_file a \<noteq> f) \<longrightarrow>
        newProfiles profs selected f = map_option jsonProfile (profs f)) \<and>
     (jsonProfile p = p \<longleftrightarrow> stableProfile p)"
proof -
  note U = applyOnStore_untouched [OF assms(2)]
  note O = applyOnStore_old_map [OF assms]
  note R = applyOnStore_result [OF assms(2)]
  have N: "map fst pmap' = map fst pmap \<and>
        (\<forall>q \<in> set (map snd pmap'). length (profObjs s) \<le> q \<and>
           (\<forall>c \<in> set (o_columns (profObjs s' ! q)). length (colObjs s) \<le> c)) \<and>
        derefMap s' pmap' = newProfiles (derefMap s pmap) selected"
    if "res = Inr pmap'" for pmap'
    using applyOnStore_refines [OF assms(1) assms(2) [unfolded that]] by blast
  have H: "handleApplyChanges \<lparr>profiles = derefMap s pmap, activePage = pg\<rparr> selected =
       map_sum id (\<lambda>pmap'. \<lparr>profiles = derefMap s' pmap', activePage = Data_Modeling\<rparr>) res"
  proof (cases res)
    case (Inl e)
    with assms(2) have "res = Inl TypeError"
      by (auto simp: applyOnStore_def actionsByFile_eq split: prod.splits if_splits)
    with R(1) show ?thesis by (simp add: handleApplyChanges_eq list_ex_iff)
  next
    case (Inr pmap')
    with R(2) have "\<not> (\<exists>a \<in> snd ` set selected. inheritedKey (action_file a))" by blast
    with N [OF Inr] Inr show ?thesis by (simp add: handleApplyChanges_eq list_ex_iff)
  qed
  have A: "dom (newProfiles profs selected) = dom profs"
    by (auto simp: newProfiles_file dom_def)
  have B: "newProfiles profs selected f = map_option jsonProfile (profs f)"
    if "\<forall>a \<in> snd ` set selected. action_file a \<noteq> f"
  proof -
    from that have "actionsFor f selected = []"
      by (auto simp: actionsFor_def filter_empty_conv)
    then show ?thesis by (simp add: newProfiles_file processFile_Nil)
  qed
  from U O R N H A B jsonProfile_stable [of p] show ?thesis by blast
qed

theorem apply_nondestructive_witness:
  "wfStore
     \<lparr>colObjs = [\<lparr>name = js ''x'', dataType = T_number, missingValues = Fin 2,
                  uniqueValues = Fin 7, nonNumericCount = None\<rparr>,
                \<lparr>name = js ''y'', dataType = T_number, missingValues = Fin 1,
                  uniqueValues = Fin 3, nonNumericCount = None\<rparr>],
      profObjs = [\<lparr>o_rowCount = Fin 9, o_columnCount = Fin 1, o_columns = [0],
                   o_aiInsights = None\<rparr>,
                 \<lparr>o_rowCount = Fin 4, o_columnCount = Fin 1, o_columns = [1],
                   o_aiInsights = None\<rparr>]\<rparr>
     [(js ''a.csv'', 0), (js ''b.csv'', 1)] \<and>
   applyOnStore
     \<lparr>colObjs = [\<lparr>name = js ''x'', dataType = T_number, missingValues = Fin 2,
                  uniqueValues = Fin 7, nonNumericCount = None\<rparr>,
                \<lparr>name = js ''y'', dataType = T_number, missingValues = Fin 1,
                  uniqueValues = Fin 3, nonNumericCount = None\<rparr>],
      profObjs = [\<lparr>o_rowCount = Fin 9, o_columnCount = Fin 1, o_columns = [0],
                   o_aiInsights = None\<rparr>,
                 \<lparr>o_rowCount = Fin 4, o_columnCount = Fin 1, o_columns = [1],
                   o_aiInsights = None\<rparr>]\<rparr>
     [(js ''a.csv'', 0), (js ''b.csv'', 1)]
     [(js ''a.csv-x'',
       \<lparr>action_file = js ''a.csv'', column = js ''x'',
        suggestion = \<lparr>action = REMOVE_ROWS, description = js ''Remove'', parameters = None\<rparr>\<rparr>)] =
     (\<lparr>colObjs = [\<lparr>name = js ''x'', dataType = T_number, missingValues = Fin 2,
                  uniqueValues = Fin 7, nonNumericCount = None\<rparr>,
                \<lparr>name = js ''y'', dataType = T_number, missingValues = Fin 1,
                  uniqueValues = Fin 3, nonNumericCount = None\<rparr>,
                \<lparr>name = js ''x'', dataType = T_number, missingValues = Fin 0,
                  uniqueValues = Fin 7, nonNumericCount = None\<rparr>,
                \<lparr>name = js ''y'', dataType = T_number, missingValues = Fin 1,
                  uniqueValues = Fin 3, nonNumericCount = None\<rparr>],
      profObjs = [\<lparr>o_rowCount = Fin 9, o_columnCount = Fin 1, o_columns = [0],
                   o_aiInsights = None\<rparr>,
                 \<lparr>o_rowCount = Fin 4, o_columnCount = Fin 1, o_columns = [1],
                   o_aiInsights = None\<rparr>,
                 \<lparr>o_rowCount = Fin 7, o_columnCount = Fin 1, o_columns = [2],
                   o_aiInsights = None\<rparr>,
                 \<lparr>o_rowCount = Fin 4, o_columnCount = Fin 1, o_columns = [3],
                   o_aiInsights = None\<rparr>]\<rparr>,
      Inr [(js ''a.csv'', 2), (js ''b.csv'', 3)]) \<and>
   derefMap
     \<lparr>colObjs = [\<lparr>name = js ''x'', dataType = T_number, missingValues = Fin 2,
                  uniqueValues = Fin 7, nonNumericCount = None\<rparr>,
                \<lparr>name = js ''y'', dataType = T_number, missingValues = Fin 1,
                  uniqueValues = Fin 3, nonNumericCount = None\<rparr>,
                \<lparr>name = js ''x'', dataType = T_number, missingValues = Fin 0,
                  uniqueValues = Fin 7, nonNumericCount = None\<rparr>,
                \<lparr>name = js ''y'', dataType = T_number, missingValues = Fin 1,
                  uniqueValues = Fin 3, nonNumericCount = None\<rparr>],
      profObjs = [\<lparr>o_rowCount = Fin 9, o_columnCount = Fin 1, o_columns = [0],
                   o_aiInsights = None\<rparr>,
                 \<lparr>o_rowCount = Fin 4, o_columnCount = Fin 1, o_columns = [1],
                   o_aiInsights = None\<rparr>,
                 \<lparr>o_rowCount = Fin 7, o_columnCount = Fin 1, o_columns = [2],
                   o_aiInsights = None\<rparr>,
                 \<lparr>o_rowCount = Fin 4, o_columnCount = Fin 1, o_columns = [3],
                   o_aiInsights = None\<rparr>]\<rparr>
     [(js ''a.csv'', 0), (js ''b.csv'', 1)] (js ''a.csv'') =
   Some \<lparr>rowCount = Fin 9, columnCount = Fin 1,
      columns = [\<lparr>name = js ''x'', dataType = T_number, missingValues = Fin 2,
                  uniqueValues = Fin 7, nonNumericCount = None\<rparr>],
      aiInsights = None\<rparr> \<and>
   newProfiles
     (derefMap
        \<lparr>colObjs = [\<lparr>name = js ''x'', dataType = T_number, missingValues = Fin 2,
                  uniqueValues = Fin 7, nonNumericCount = None\<rparr>,
                \<lparr>name = js ''y'', dataType = T_number, missingValues = Fin 1,
                  uniqueValues = Fin 3, nonNumericCount = None\<rparr>],
      profObjs = [\<lparr>o_rowCount = Fin 9, o_columnCount = Fin 1, o_columns = [0],
                   o_aiInsights = None\<rparr>,
                 \<lparr>o_rowCount = Fin 4, o_columnCount = Fin 1, o_columns = [1],
                   o_aiInsights = None\<rparr>]\<rparr>
        [(js ''a.csv'', 0), (js ''b.csv'', 1)])
     [(js ''a.csv-x'',
       \<lparr>action_file = js ''a.csv'', column = js ''x'',
        suggestion = \<lparr>action = REMOVE_ROWS, description = js ''Remove'', parameters = None\<rparr>\<rparr>)]
     (js ''a.csv'') =
   Some \<lparr>rowCount = Fin 7, columnCount = Fin 1,
      columns = [\<lparr>name = js ''x'', dataType = T_number, missingValues = Fin 0,
                  uniqueValues = Fin 7, nonNumericCount = None\<rparr>],
      aiInsights = None\<rparr> \<and>
   action_file
       \<lparr>action_file = js ''a.csv'', column = js ''x'',
        suggestion = \<lparr>action = REMOVE_ROWS, description = js ''Remove'', parameters = None\<rparr>\<rparr> \<noteq>
     js ''b.csv'' \<and>
   stableProfile
     \<lparr>rowCount = Fin 4, columnCount = Fin 1,
      columns = [\<lparr>name = js ''y'', dataType = T_number, missingValues = Fin 1,
                  uniqueValues = Fin 3, nonNumericCount = None\<rparr>],
      aiInsights = None\<rparr> \<and>
   newProfiles
     (derefMap
        \<lparr>colObjs = [\<lparr>name = js ''x'', dataType = T_number, missingValues = Fin 2,
                  uniqueValues = Fin 7, nonNumericCount = None\<rparr>,
                \<lparr>name = js ''y'', dataType = T_number, missingValues = Fin 1,
                  uniqueValues = Fin 3, nonNumericCount = None\<rparr>],
      profObjs = [\<lparr>o_rowCount = Fin 9, o_columnCount = Fin 1, o_columns = [0],
                   o_aiInsights = None\<rparr>,
                 \<lparr>o_rowCount = Fin 4, o_columnCount = Fin 1, o_columns = [1],
                   o_aiInsights = None\<rparr>]\<rparr>
        [(js ''a.csv'', 0), (js ''b.csv'', 1)])
     [(js ''a.csv-x'',
       \<lparr>action_file = js ''a.csv'', column = js ''x'',
        suggestion = \<lparr>action = REMOVE_ROWS, description = js ''Remove'', parameters = None\<rparr>\<rparr>)]
     (js ''b.csv'') =
   Some \<lparr>rowCount = Fin 4, columnCount = Fin 1,
      columns = [\<lparr>name = js ''y'', dataType = T_number, missingValues = Fin 1,
                  uniqueValues = Fin 3, nonNumericCount = None\<rparr>],
      aiInsights = None\<rparr>"
proof -
  let ?s = "\<lparr>colObjs = [\<lparr>name = js ''x'', dataType = T_number, missingValues = Fin 2,
                  uniqueValues = Fin 7, nonNumericCount = None\<rparr>,
                \<lparr>name = js ''y'', dataType = T_number, missingValues = Fin 1,
                  uniqueValues = Fin 3, nonNumericCount = None\<rparr>],
      profObjs = [\<lparr>o_rowCount = Fin 9, o_columnCount = Fin 1, o_columns = [0],
                   o_aiInsights = None\<rparr>,
                 \<lparr>o_rowCount = Fin 4, o_columnCount = Fin 1, o_columns = [1],
                   o_aiInsights = None\<rparr>]\<rparr>"
  let ?pmap = "[(js ''a.csv'', 0::nat), (js ''b.csv'', 1)]"
  let ?a = "\<lparr>action_file = js ''a.csv'', column = js ''x'',
        suggestion = \<lparr>action = REMOVE_ROWS, description = js ''Remove'', parameters = None\<rparr>\<rparr>"
  let ?sel = "[(js ''a.csv-x'', ?a)]"
  let ?s' = "\<lparr>colObjs = [\<lparr>name = js ''x'', dataType = T_number, missingValues = Fin 2,
                  uniqueValues = Fin 7, nonNumericCount = None\<rparr>,
                \<lparr>name = js ''y'', dataType = T_number, missingValues = Fin 1,
                  uniqueValues = Fin 3, nonNumericCount = None\<rparr>,
                \<lparr>name = js ''x'', dataType = T_number, missingValues = Fin 0,
                  uniqueValues = Fin 7, nonNumericCount = None\<rparr>,
                \<lparr>name = js ''y'', dataType = T_number, missingValues = Fin 1,
                  uniqueValues = Fin 3, nonNumericCount = None\<rparr>],
      profObjs = [\<lparr>o_rowCount = Fin 9, o_columnCount = Fin 1, o_columns = [0],
                   o_aiInsights = None\<rparr>,
                 \<lparr>o_rowCount = Fin 4, o_columnCount = Fin 1, o_columns = [1],
                   o_aiInsights = None\<rparr>,
                 \<lparr>o_rowCount = Fin 7, o_columnCount = Fin 1, o_columns = [2],
                   o_aiInsights = None\<rparr>,
                 \<lparr>o_rowCount = Fin 4, o_columnCount = Fin 1, o_columns = [3],
                   o_aiInsights = None\<rparr>]\<rparr>"
  let ?pmap' = "[(js ''a.csv'', 2::nat), (js ''b.csv'', 3)]"
  let ?pa = "\<lparr>rowCount = Fin 9, columnCount = Fin 1,
      columns = [\<lparr>name = js ''x'', dataType = T_number, missingValues = Fin 2,
                  uniqueValues = Fin 7, nonNumericCount = None\<rparr>],
      aiInsights = None\<rparr>"
  let ?pa' = "\<lparr>rowCount = Fin 7, columnCount = Fin 1,
      columns = [\<lparr>name = js ''x'', dataType = T_number, missingValues = Fin 0,
                  uniqueValues = Fin 7, nonNumericCount = None\<rparr>],
      aiInsights = None\<rparr>"
  let ?pb = "\<lparr>rowCount = Fin 4, columnCount = Fin 1,
      columns = [\<lparr>name = js ''y'', dataType = T_number, missingValues = Fin 1,
                  uniqueValues = Fin 3, nonNumericCount = None\<rparr>],
      aiInsights = None\<rparr>"
  have wf: "wfStore ?s ?pmap" by code_simp
  have run: "applyOnStore ?s ?pmap ?sel = (?s', Inr ?pmap')" by code_simp
  note T = apply_nondestructive [OF wf run, where profs = "derefMap ?s ?pmap"
      and f = "js ''b.csv''" and p = ?pb]
  from T have old: "derefMap ?s' ?pmap = derefMap ?s ?pmap"
    and new: "derefMap ?s' ?pmap' = newProfiles (derefMap ?s ?pmap) ?sel"
    and frame: "(\<forall>a \<in> snd ` set ?sel. action_file a \<noteq> js ''b.csv'') \<longrightarrow>
        newProfiles (derefMap ?s ?pmap) ?sel (js ''b.csv'') =
          map_option jsonProfile (derefMap ?s ?pmap (js ''b.csv''))"
    and copy: "jsonProfile ?pb = ?pb \<longleftrightarrow> stableProfile ?pb"
    by blast+
  have ne: "action_file ?a \<noteq> js ''b.csv''" by code_simp
  have st: "stableProfile ?pb" by code_simp
  have a0: "derefMap ?s ?pmap (js ''a.csv'') = Some ?pa"
    unfolding derefMap_apply by code_simp
  have b0: "derefMap ?s ?pmap (js ''b.csv'') = Some ?pb"
    unfolding derefMap_apply by code_simp
  have a1: "derefMap ?s' ?pmap' (js ''a.csv'') = Some ?pa'"
    unfolding derefMap_apply by code_simp
  from old a0 have c1: "derefMap ?s' ?pmap (js ''a.csv'') = Some ?pa" by simp
  from new a1 have c2: "newProfiles (derefMap ?s ?pmap) ?sel (js ''a.csv'') = Some ?pa'"
    by simp
  from ne have "\<forall>a \<in> snd ` set ?sel. action_file a \<noteq> js ''b.csv''" by simp
  with frame have "newProfiles (derefMap ?s ?pmap) ?sel (js ''b.csv'') =
      map_option jsonProfile (derefMap ?s ?pmap (js ''b.csv''))"
    by blast
  with b0 copy st have c3: "newProfiles (derefMap ?s ?pmap) ?sel (js ''b.csv'') = Some ?pb"
    by simp
  from wf run c1 c2 ne st c3 show ?thesis by blast
qed

text \<open>
  A profile does not always come back from the copy as it went in, and the app reaches
  such a profile by itself. The file with the header \<open>A,B\<close> and the rows \<open>,1\<close> and \<open>,x\<close>
  has two rows, both missing in \<open>A\<close>, and a mixed column \<open>B\<close>. Removing the rows with a
  missing \<open>A\<close> leaves no rows; changing \<open>B\<close> to \<open>number\<close> makes its non-numeric value a
  missing one; removing the rows with a missing \<open>B\<close> divides by the row count 0, and
  \<open>A\<close> ends with \<open>NaN\<close> missing values. Applying once more, with nothing selected,
  changes the profile of this file, which has no selection: \<open>NaN\<close> becomes \<open>null\<close>.
\<close>

theorem apply_frame_counterexample:
  "basicProfile (\<lambda>n::nat. js ''0'') [js ''A'', js ''B'']
       [[CString [], CString (js ''1'')], [CString [], CString (js ''x'')]] =
     Inr \<lparr>rowCount = Fin 2, columnCount = Fin 2,
       columns = [\<lparr>name = js ''A'', dataType = T_unknown, missingValues = Fin 2,
                   uniqueValues = Fin 0, nonNumericCount = None\<rparr>,
                  \<lparr>name = js ''B'', dataType = T_mixed, missingValues = Fin 0,
                   uniqueValues = Fin 2, nonNumericCount = Some (Fin 1)\<rparr>]\<rparr> \<and>
   newProfiles (newProfiles (newProfiles
       [js ''t.csv'' \<mapsto> \<lparr>rowCount = Fin 2, columnCount = Fin 2,
          columns = [\<lparr>name = js ''A'', dataType = T_unknown, missingValues = Fin 2,
                      uniqueValues = Fin 0, nonNumericCount = None\<rparr>,
                     \<lparr>name = js ''B'', dataType = T_mixed, missingValues = Fin 0,
                      uniqueValues = Fin 2, nonNumericCount = Some (Fin 1)\<rparr>],
          aiInsights = None\<rparr>]
       (handleActionSelect (js ''t.csv'') (js ''A'')
          \<lparr>action = REMOVE_ROWS, description = js ''Remove rows'', parameters = None\<rparr> []))
       (handleActionSelect (js ''t.csv'') (js ''B'')
          \<lparr>action = CHANGE_TYPE, description = js ''To number'',
            parameters = Some \<lparr>fill_value = None, targetType = Some To_number\<rparr>\<rparr> []))
       (handleActionSelect (js ''t.csv'') (js ''B'')
          \<lparr>action = REMOVE_ROWS, description = js ''Remove rows'', parameters = None\<rparr> [])
     (js ''t.csv'') =
     Some \<lparr>rowCount = Fin 0, columnCount = Fin 2,
       columns = [\<lparr>name = js ''A'', dataType = T_unknown, missingValues = NaN,
                   uniqueValues = Fin 0, nonNumericCount = None\<rparr>,
                  \<lparr>name = js ''B'', dataType = T_number, missingValues = Fin 0,
                   uniqueValues = Fin 2, nonNumericCount = Some (Fin 0)\<rparr>],
       aiInsights = None\<rparr> \<and>
   newProfiles (newProfiles (newProfiles (newProfiles
       [js ''t.csv'' \<mapsto> \<lparr>rowCount = Fin 2, columnCount = Fin 2,
          columns = [\<lparr>name = js ''A'', dataType = T_unknown, missingValues = Fin 2,
                      uniqueValues = Fin 0, nonNumericCount = None\<rparr>,
                     \<lparr>name = js ''B'', dataType = T_mixed, missingValues = Fin 0,
                      uniqueValues = Fin 2, nonNumericCount = Some (Fin 1)\<rparr>],
          aiInsights = None\<rparr>]
       (handleActionSelect (js ''t.csv'') (js ''A'')
          \<lparr>action = REMOVE_ROWS, description = js ''Remove rows'', parameters = None\<rparr> []))
       (handleActionSelect (js ''t.csv'') (js ''B'')
          \<lparr>action = CHANGE_TYPE, description = js ''To number'',
            parameters = Some \<lparr>fill_value = None, targetType = Some To_number\<rparr>\<rparr> []))
       (handleActionSelect (js ''t.csv'') (js ''B'')
          \<lparr>action = REMOVE_ROWS, description = js ''Remove rows'', parameters = None\<rparr> []))
       []
     (js ''t.csv'') =
     Some \<lparr>rowCount = Fin 0, columnCount = Fin 2,
       columns = [\<lparr>name = js ''A'', dataType = T_unknown, missingValues = Null,
                   uniqueValues = Fin 0, nonNumericCount = None\<rparr>,
                  \<lparr>name = js ''B'', dataType = T_number, missingValues = Fin 0,
                   uniqueValues = Fin 2, nonNumericCount = Some (Fin 0)\<rparr>],
       aiInsights = None\<rparr>"
proof -
  have a: "basicProfile (\<lambda>n::nat. js ''0'') [js ''A'', js ''B'']
       [[CString [], CString (js ''1'')], [CString [], CString (js ''x'')]] =
     Inr \<lparr>rowCount = Fin 2, columnCount = Fin 2,
       columns = [\<lparr>name = js ''A'', dataType = T_unknown, missingValues = Fin 2,
                   uniqueValues = Fin 0, nonNumericCount = None\<rparr>,
                  \<lparr>name = js ''B'', dataType = T_mixed, missingValues = Fin 0,
                   uniqueValues = Fin 2, nonNumericCount = Some (Fin 1)\<rparr>]\<rparr>"
    by code_simp
  have b: "newProfiles (newProfiles (newProfiles
       [js ''t.csv'' \<mapsto> \<lparr>rowCount = Fin 2, columnCount = Fin 2,
          columns = [\<lparr>name = js ''A'', dataType = T_unknown, missingValues = Fin 2,
                      uniqueValues = Fin 0, nonNumericCount = None\<rparr>,
                     \<lparr>name = js ''B'', dataType = T_mixed, missingValues = Fin 0,
                      uniqueValues = Fin 2, nonNumericCount = Some (Fin 1)\<rparr>],
          aiInsights = None\<rparr>]
       (handleActionSelect (js ''t.csv'') (js ''A'')
          \<lparr>action = REMOVE_ROWS, description = js ''Remove rows'', parameters = None\<rparr> []))
       (handleActionSelect (js ''t.csv'') (js ''B'')
          \<lparr>action = CHANGE_TYPE, description = js ''To number'',
            parameters = Some \<lparr>fill_value = None, targetType = Some To_number\<rparr>\<rparr> []))
       (handleActionSelect (js ''t.csv'') (js ''B'')
          \<lparr>action = REMOVE_ROWS, description = js ''Remove rows'', parameters = None\<rparr> [])
     (js ''t.csv'') =
     Some \<lparr>rowCount = Fin 0, columnCount = Fin 2,
       columns = [\<lparr>name = js ''A'', dataType = T_unknown, missingValues = NaN,
                   uniqueValues = Fin 0, nonNumericCount = None\<rparr>,
                  \<lparr>name = js ''B'', dataType = T_number, missingValues = Fin 0,
                   uniqueValues = Fin 2, nonNumericCount = Some (Fin 0)\<rparr>],
       aiInsights = None\<rparr>"
    unfolding newProfiles_file by code_simp
  have e: "newProfiles (newProfiles (newProfiles (newProfiles
       [js ''t.csv'' \<mapsto> \<lparr>rowCount = Fin 2, columnCount = Fin 2,
          columns = [\<lparr>name = js ''A'', dataType = T_unknown, missingValues = Fin 2,
                      uniqueValues = Fin 0, nonNumericCount = None\<rparr>,
                     \<lparr>name = js ''B'', dataType = T_mixed, missingValues = Fin 0,
                      uniqueValues = Fin 2, nonNumericCount = Some (Fin 1)\<rparr>],
          aiInsights = None\<rparr>]
       (handleActionSelect (js ''t.csv'') (js ''A'')
          \<lparr>action = REMOVE_ROWS, description = js ''Remove rows'', parameters = None\<rparr> []))
       (handleActionSelect (js ''t.csv'') (js ''B'')
          \<lparr>action = CHANGE_TYPE, description = js ''To number'',
            parameters = Some \<lparr>fill_value = None, targetType = Some To_number\<rparr>\<rparr> []))
       (handleActionSelect (js ''t.csv'') (js ''B'')
          \<lparr>action = REMOVE_ROWS, description = js ''Remove rows'', parameters = None\<rparr> []))
       []
     (js ''t.csv'') =
     Some \<lparr>rowCount = Fin 0, columnCount = Fin 2,
       columns = [\<lparr>name = js ''A'', dataType = T_unknown, missingValues = Null,
                   uniqueValues = Fin 0, nonNumericCount = None\<rparr>,
                  \<lparr>name = js ''B'', dataType = T_number, missingValues = Fin 0,
                   uniqueValues = Fin 2, nonNumericCount = Some (Fin 0)\<rparr>],
       aiInsights = None\<rparr>"
    unfolding newProfiles_file by code_simp
  from a b e show ?thesis by blast
qed

end
